theory Spec2Isabelle
  imports Main "HOL-Library.Sublist" "HOL-Library.Word"
begin

section \<open>JavaScript values and strings\<close>

text \<open>
  What the script can raise: a TypeError of the language itself, or whatever the code
  of a foreign object throws when the script converts that object to a string.
\<close>

datatype error = TypeError | Thrown

text \<open>
  The script handles attribute values and option values. It looks at a value in two
  ways only, \<open>!value\<close> and \<open>String(value)\<close>, and the values are modelled as far as
  these two need:
  \<^item> \<open>JNum n\<close> is the Number with the integral value \<open>sint n\<close>, from \<open>-2^53\<close> to
    \<open>2^53 - 1\<close>. Each of these is a Number, and Number-to-string conversion prints
    its decimal digits. Minus zero is falsy and prints \<open>0\<close> like zero.
  \<^item> \<open>JNaN\<close> and \<open>JInfinity negative\<close> are the three special Numbers.
  \<^item> \<open>JDouble digits\<close> is any other finite Number (a fraction, or an integer
    outside the range above), carried by the text that Number-to-string conversion
    prints for it: \<open>1.5\<close>, \<open>1e+21\<close>, \<open>18446744073709552000\<close>. It is not zero.
  \<^item> \<open>JBigInt\<close>, \<open>JStr\<close> and \<open>JSymbol description\<close> are the other primitives.
  \<^item> \<open>JObject conversion\<close> is an object or function, carried by what converting it
    to a string gives: the string, or the error raised (a TypeError when it has
    neither a usable \<open>toString\<close> nor \<open>valueOf\<close>, or what its own code throws).
    Objects are truthy; the one legacy exception, \<open>document.all\<close>, is left out.
  A string is a list of code units; the embedding covers the code units
  \<open>U+0000\<close> to \<open>U+00FF\<close>, one \<^typ>\<open>char\<close> each.
\<close>

datatype jsval =
    JUndefined
  | JNull
  | JBool bool
  | JNum "54 word"
  | JNaN
  | JInfinity bool
  | JDouble string
  | JBigInt int
  | JStr string
  | JSymbol string
  | JObject "error + string"

text \<open>\<open>!value\<close> is the negation of \<open>truthy value\<close>.\<close>

fun truthy :: "jsval \<Rightarrow> bool" where
  "truthy JUndefined = False"
| "truthy JNull = False"
| "truthy (JBool b) = b"
| "truthy (JNum n) = (n \<noteq> 0)"
| "truthy JNaN = False"
| "truthy (JInfinity negative) = True"
| "truthy (JDouble digits) = True"
| "truthy (JBigInt n) = (n \<noteq> 0)"
| "truthy (JStr s) = (s \<noteq> [])"
| "truthy (JSymbol description) = True"
| "truthy (JObject conversion) = True"

fun nat_digits :: "nat \<Rightarrow> string" where
  "nat_digits n =
     (if n < 10 then [char_of (48 + n)]
      else nat_digits (n div 10) @ [char_of (48 + n mod 10)])"

declare nat_digits.simps [simp del]

definition int_digits :: "int \<Rightarrow> string" where
  "int_digits n = (if n < 0 then CHR ''-'' # nat_digits (nat (- n)) else nat_digits (nat n))"

text \<open>\<open>String(value)\<close>: the string, or the error the conversion raises.\<close>

fun String_of :: "jsval \<Rightarrow> error + string" where
  "String_of JUndefined = Inr ''undefined''"
| "String_of JNull = Inr ''null''"
| "String_of (JBool b) = Inr (if b then ''true'' else ''false'')"
| "String_of (JNum n) = Inr (int_digits (sint n))"
| "String_of JNaN = Inr ''NaN''"
| "String_of (JInfinity negative) = Inr (if negative then ''-Infinity'' else ''Infinity'')"
| "String_of (JDouble digits) = Inr digits"
| "String_of (JBigInt n) = Inr (int_digits n)"
| "String_of (JStr s) = Inr s"
| "String_of (JSymbol description) = Inr (''Symbol('' @ description @ '')'')"
| "String_of (JObject conversion) = conversion"

text \<open>
  \<open>String.prototype.trim\<close> strips white space and line terminators from both ends;
  among the code units covered these are TAB, LF, VT, FF, CR, SPACE and NBSP.
\<close>

definition is_ws :: "char \<Rightarrow> bool" where
  "is_ws c = (of_char c \<in> {9, 10, 11, 12, 13, 32, 160 :: nat})"

definition trim :: "string \<Rightarrow> string" where
  "trim s = rev (dropWhile is_ws (rev (dropWhile is_ws s)))"

definition startsWith :: "string \<Rightarrow> string \<Rightarrow> bool" where
  "startsWith s p = (take (length p) s = p)"

section \<open>Identifier extraction\<close>

text \<open>The character class \<open>[A-Za-z0-9_-]\<close>.\<close>

definition is_id_char :: "char \<Rightarrow> bool" where
  "is_id_char c =
     (let n = of_char c :: nat
      in (65 \<le> n \<and> n \<le> 90) \<or> (97 \<le> n \<and> n \<le> 122) \<or> (48 \<le> n \<and> n \<le> 57)
         \<or> c = CHR ''_'' \<or> c = CHR ''-'')"

text \<open>\<open>/^[A-Za-z0-9_-]{11}$/.test(s)\<close>.\<close>

definition bare_id :: "string \<Rightarrow> bool" where
  "bare_id s = (length s = 11 \<and> list_all is_id_char s)"

text \<open>
  The alternatives of the non-capturing group of
  \<open>/(?:v=|\/embed\/|\/shorts\/|youtu\.be\/)([A-Za-z0-9_-]{11})/\<close>, in the order
  in which the matcher tries them.
\<close>

definition markers :: "string list" where
  "markers = [''v='', ''/embed/'', ''/shorts/'', ''youtu.be/'']"

text \<open>
  One attempt of the matcher at the start of \<open>s\<close>: the first alternative that is a
  prefix of \<open>s\<close> and is followed by eleven class characters wins; the result is the
  captured group.
\<close>

fun match_alts :: "string list \<Rightarrow> string \<Rightarrow> string option" where
  "match_alts [] s = None"
| "match_alts (m # ms) s =
     (if startsWith s m \<and> bare_id (take 11 (drop (length m) s))
      then Some (take 11 (drop (length m) s))
      else match_alts ms s)"

text \<open>\<open>String.prototype.match\<close> without the global flag: the leftmost start position wins.\<close>

fun regex_search :: "string \<Rightarrow> string option" where
  "regex_search [] = match_alts markers []"
| "regex_search (c # cs) =
     (case match_alts markers (c # cs) of
        Some g \<Rightarrow> Some g
      | None \<Rightarrow> regex_search cs)"

text \<open>The result is the identifier, or the error raised by \<open>String(value)\<close>.\<close>

definition extractYTId :: "jsval \<Rightarrow> error + string" where
  "extractYTId v =
     (if \<not> truthy v then Inr []
      else (case String_of v of
              Inl e \<Rightarrow> Inl e
            | Inr s \<Rightarrow>
                let trimmed = trim s
                in if bare_id trimmed then Inr trimmed
                   else (case regex_search trimmed of
                           Some g \<Rightarrow> Inr (if g \<noteq> [] then g else trimmed)
                         | None \<Rightarrow> Inr trimmed)))"

section \<open>Embed URL\<close>

text \<open>
  \<open>URLSearchParams.prototype.toString\<close> is the form-urlencoded serializer: every
  name and value is encoded in UTF-8, then each byte is kept when it is an ASCII
  letter or digit or one of \<open>* - . _\<close>, written \<open>+\<close> when it is a space, and
  percent-encoded with upper-case hexadecimal digits otherwise.
\<close>

definition utf8 :: "char \<Rightarrow> nat list" where
  "utf8 c = (let n = of_char c :: nat
             in if n < 128 then [n] else [192 + n div 64, 128 + n mod 64])"

definition unreserved :: "nat \<Rightarrow> bool" where
  "unreserved b =
     ((65 \<le> b \<and> b \<le> 90) \<or> (97 \<le> b \<and> b \<le> 122) \<or> (48 \<le> b \<and> b \<le> 57)
      \<or> b = 42 \<or> b = 45 \<or> b = 46 \<or> b = 95)"

definition hex_digit :: "nat \<Rightarrow> char" where
  "hex_digit n = (if n < 10 then char_of (48 + n) else char_of (55 + n))"

definition enc_byte :: "nat \<Rightarrow> string" where
  "enc_byte b =
     (if b = 32 then ''+''
      else if unreserved b then [char_of b]
      else [CHR ''%'', hex_digit (b div 16), hex_digit (b mod 16)])"

definition form_urlencode :: "string \<Rightarrow> string" where
  "form_urlencode s = concat (map enc_byte (concat (map utf8 s)))"

fun join_amp :: "string list \<Rightarrow> string" where
  "join_amp [] = []"
| "join_amp [x] = x"
| "join_amp (x # y # ys) = x @ ''&'' @ join_amp (y # ys)"

definition URLSearchParams_toString :: "(string \<times> string) list \<Rightarrow> string" where
  "URLSearchParams_toString ps =
     join_amp (map (\<lambda>(k, v). form_urlencode k @ ''='' @ form_urlencode v) ps)"

text \<open>
  An options object is a map from the names of its own enumerable data properties to
  their values. \<open>Object.assign\<close> copies the properties of the source over the target
  and skips an undefined or null source (\<open>None\<close>); reading an absent property
  gives \<open>undefined\<close>.
\<close>

type_synonym jsobj = "string \<rightharpoonup> jsval"

definition Object_assign :: "jsobj \<Rightarrow> jsobj option \<Rightarrow> jsobj" where
  "Object_assign target source = (case source of None \<Rightarrow> target | Some s \<Rightarrow> target ++ s)"

definition get_prop :: "jsobj \<Rightarrow> string \<Rightarrow> jsval" where
  "get_prop ob k = (case ob k of None \<Rightarrow> JUndefined | Some v \<Rightarrow> v)"

definition embed_base :: string where
  "embed_base = ''https://www.youtube-nocookie.com/embed/''"

text \<open>
  The result is the URL, or the error raised by one of the two string conversions:
  that of the reference inside \<open>extractYTId\<close>, or that of the autoplay option.
\<close>

definition ytSrc :: "jsval \<Rightarrow> jsobj option \<Rightarrow> error + string" where
  "ytSrc raw options =
     (let opts = Object_assign [''autoplay'' \<mapsto> JNum 1] options
      in case extractYTId raw of
           Inl e \<Rightarrow> Inl e
         | Inr ident \<Rightarrow>
             if ident = [] \<or> startsWith ident ''YOUR_'' then Inr []
             else let base = embed_base @ ident
                  in (case String_of (get_prop opts ''autoplay'') of
                        Inl e \<Rightarrow> Inl e
                      | Inr autoplay \<Rightarrow>
                          let params = [(''autoplay'', autoplay),
                                        (''mute'', ''1''),
                                        (''controls'', ''0''),
                                        (''rel'', ''0''),
                                        (''modestbranding'', ''1''),
                                        (''playsinline'', ''1''),
                                        (''iv_load_policy'', ''3''),
                                        (''loop'', ''1''),
                                        (''playlist'', ident)]
                          in Inr (base @ ''?'' @ URLSearchParams_toString params)))"

section \<open>Document tree\<close>

text \<open>
  A node of the page is an element, with its local name, its attributes in order and
  its children in order, or a text node. An element inside a tree is referred to by
  its path, the child indices from the root of the tree down to it.
\<close>

datatype node =
    Element (tag: string) (attrs: "(string \<times> string) list") (kids: "node list")
  | Text string

type_synonym path = "nat list"

fun is_element :: "node \<Rightarrow> bool" where
  "is_element (Element t a ks) = True"
| "is_element (Text s) = False"

fun children :: "node \<Rightarrow> node list" where
  "children (Element t a ks) = ks"
| "children (Text s) = []"

fun getAttribute :: "node \<Rightarrow> string \<Rightarrow> string option" where
  "getAttribute (Element t a ks) k = map_of a k"
| "getAttribute (Text s) k = None"

definition hasAttribute :: "node \<Rightarrow> string \<Rightarrow> bool" where
  "hasAttribute n k = (getAttribute n k \<noteq> None)"

text \<open>Setting an attribute keeps the place of an existing one and appends a new one.\<close>

fun set_attr :: "string \<Rightarrow> string \<Rightarrow> (string \<times> string) list \<Rightarrow> (string \<times> string) list" where
  "set_attr k v [] = [(k, v)]"
| "set_attr k v ((k', v') # as) =
     (if k' = k then (k, v) # as else (k', v') # set_attr k v as)"

fun setAttribute :: "string \<Rightarrow> string \<Rightarrow> node \<Rightarrow> node" where
  "setAttribute k v (Element t a ks) = Element t (set_attr k v a) ks"
| "setAttribute k v (Text s) = Text s"

text \<open>
  The token set of the \<open>class\<close> attribute: the attribute value split on ASCII white
  space, each token kept at its first occurrence.
\<close>

definition is_ascii_ws :: "char \<Rightarrow> bool" where
  "is_ascii_ws c = (of_char c \<in> {9, 10, 12, 13, 32 :: nat})"

fun split_ws :: "string \<Rightarrow> string \<Rightarrow> string list" where
  "split_ws cur [] = (if cur = [] then [] else [rev cur])"
| "split_ws cur (c # cs) =
     (if is_ascii_ws c
      then (if cur = [] then split_ws [] cs else rev cur # split_ws [] cs)
      else split_ws (c # cur) cs)"

fun ordered_set :: "string list \<Rightarrow> string list \<Rightarrow> string list" where
  "ordered_set seen [] = rev seen"
| "ordered_set seen (x # xs) =
     (if x \<in> set seen then ordered_set seen xs else ordered_set (x # seen) xs)"

definition classList :: "node \<Rightarrow> string list" where
  "classList n =
     (case getAttribute n ''class'' of
        None \<Rightarrow> []
      | Some v \<Rightarrow> ordered_set [] (split_ws [] v))"

fun join_space :: "string list \<Rightarrow> string" where
  "join_space [] = []"
| "join_space [x] = x"
| "join_space (x # y # ys) = x @ '' '' @ join_space (y # ys)"

text \<open>
  The update steps of a token list: nothing is written when the element has no
  \<open>class\<close> attribute and the token set is empty; otherwise the attribute is set
  to the tokens joined by single spaces.
\<close>

definition classList_update :: "string list \<Rightarrow> node \<Rightarrow> node" where
  "classList_update toks n =
     (if \<not> hasAttribute n ''class'' \<and> toks = [] then n
      else setAttribute ''class'' (join_space toks) n)"

definition classList_add :: "string \<Rightarrow> node \<Rightarrow> node" where
  "classList_add tok n =
     (let toks = classList n
      in classList_update (if tok \<in> set toks then toks else toks @ [tok]) n)"

definition classList_remove :: "string \<Rightarrow> node \<Rightarrow> node" where
  "classList_remove tok n = classList_update (filter (\<lambda>t. t \<noteq> tok) (classList n)) n"

subsection \<open>Selectors\<close>

text \<open>The selectors the script uses: \<open>iframe\<close>, \<open>.ytEmbed[data-yt]\<close>, \<open>.hoverPreview\<close>.\<close>

definition sel_iframe :: "node \<Rightarrow> bool" where
  "sel_iframe n = (is_element n \<and> tag n = ''iframe'')"

definition sel_ytEmbed_data_yt :: "node \<Rightarrow> bool" where
  "sel_ytEmbed_data_yt n =
     (is_element n \<and> ''ytEmbed'' \<in> set (classList n) \<and> hasAttribute n ''data-yt'')"

definition sel_hoverPreview :: "node \<Rightarrow> bool" where
  "sel_hoverPreview n = (is_element n \<and> ''hoverPreview'' \<in> set (classList n))"

text \<open>
  The first match among the descendants in tree order (an element before its
  descendants, these before its following siblings), with its path. The search runs
  over a list of siblings whose first member has index \<open>i\<close>.
\<close>

fun find_first :: "(node \<Rightarrow> bool) \<Rightarrow> nat \<Rightarrow> node list \<Rightarrow> (path \<times> node) option" where
  "find_first P i [] = None"
| "find_first P i (Text s # ns) = find_first P (Suc i) ns"
| "find_first P i (Element t a ks # ns) =
     (if P (Element t a ks) then Some ([i], Element t a ks)
      else (case find_first P 0 ks of
              Some (p, n) \<Rightarrow> Some (i # p, n)
            | None \<Rightarrow> find_first P (Suc i) ns))"

text \<open>All matches among the descendants, in tree order.\<close>

fun find_all :: "(node \<Rightarrow> bool) \<Rightarrow> node list \<Rightarrow> node list" where
  "find_all P [] = []"
| "find_all P (Text s # ns) = find_all P ns"
| "find_all P (Element t a ks # ns) =
     (if P (Element t a ks) then [Element t a ks] else []) @ find_all P ks @ find_all P ns"

text \<open>
  \<open>querySelector\<close> and \<open>querySelectorAll\<close> are methods of elements; a text node
  has no such property, and calling it raises a TypeError.
\<close>

definition querySelector :: "node \<Rightarrow> (node \<Rightarrow> bool) \<Rightarrow> error + (path \<times> node) option" where
  "querySelector n sel = (if is_element n then Inr (find_first sel 0 (children n)) else Inl TypeError)"

definition querySelectorAll :: "node \<Rightarrow> (node \<Rightarrow> bool) \<Rightarrow> error + node list" where
  "querySelectorAll n sel = (if is_element n then Inr (find_all sel (children n)) else Inl TypeError)"

subsection \<open>Reading and changing a tree at a path\<close>

fun node_at :: "node \<Rightarrow> path \<Rightarrow> node option" where
  "node_at n [] = Some n"
| "node_at (Element t a ks) (i # p) = (if i < length ks then node_at (ks ! i) p else None)"
| "node_at (Text s) (i # p) = None"

fun map_at :: "path \<Rightarrow> (node \<Rightarrow> node) \<Rightarrow> node \<Rightarrow> node" where
  "map_at [] f n = f n"
| "map_at (i # p) f (Element t a ks) =
     (if i < length ks then Element t a (ks[i := map_at p f (ks ! i)]) else Element t a ks)"
| "map_at (i # p) f (Text s) = Text s"

text \<open>\<open>Element.remove\<close>: the node leaves the child list of its parent.\<close>

fun remove_at :: "path \<Rightarrow> node \<Rightarrow> node" where
  "remove_at [] n = n"
| "remove_at [i] (Element t a ks) = Element t a (take i ks @ drop (Suc i) ks)"
| "remove_at (i # j # p) (Element t a ks) =
     (if i < length ks then Element t a (ks[i := remove_at (j # p) (ks ! i)]) else Element t a ks)"
| "remove_at (i # p) (Text s) = Text s"

text \<open>The inverse of a removal, used to state what a removal leaves in place.\<close>

fun insert_at :: "path \<Rightarrow> node \<Rightarrow> node \<Rightarrow> node" where
  "insert_at [] x n = n"
| "insert_at [i] x (Element t a ks) = Element t a (take i ks @ x # drop i ks)"
| "insert_at (i # j # p) x (Element t a ks) =
     (if i < length ks then Element t a (ks[i := insert_at (j # p) x (ks ! i)]) else Element t a ks)"
| "insert_at (i # p) x (Text s) = Text s"

fun appendChild :: "node \<Rightarrow> node \<Rightarrow> node" where
  "appendChild (Element t a ks) c = Element t a (ks @ [c])"
| "appendChild (Text s) c = Text s"

text \<open>The number of player elements a container holds: its \<open>iframe\<close> descendants.\<close>

definition count_iframes :: "node \<Rightarrow> nat" where
  "count_iframes h = length (find_all sel_iframe (children h))"

section \<open>Player host manager\<close>

text \<open>
  The element \<open>document.createElement("iframe")\<close> gives, after the four property
  assignments, each reflected by the content attribute of the same (lower-case) name.
\<close>

definition created_iframe :: node where
  "created_iframe =
     setAttribute ''referrerpolicy'' ''strict-origin-when-cross-origin''
       (setAttribute ''title'' ''YouTube video''
         (setAttribute ''allow'' ''autoplay; encrypted-media; picture-in-picture''
           (setAttribute ''loading'' ''lazy'' (Element ''iframe'' [] []))))"

text \<open>
  The changes \<open>injectIframe\<close> makes to the page: appending a child to the host, and
  assigning the \<open>src\<close> of the element at a path inside the host.
\<close>

datatype mutation = AppendChild node | SetSrc path string

text \<open>
  \<open>injectIframe\<close> takes the host (\<open>None\<close> for a null or undefined host) and gives
  the host as it is afterwards, the returned player element (\<open>None\<close> for \<open>null\<close>)
  and the changes it made in the order it made them, or the error raised.
\<close>

definition injectIframe ::
  "node option \<Rightarrow> jsval \<Rightarrow> jsobj option
     \<Rightarrow> error + (node option \<times> node option \<times> mutation list)" where
  "injectIframe hostEl raw options =
     (case hostEl of
        None \<Rightarrow> Inr (None, None, [])
      | Some h \<Rightarrow>
          if \<not> truthy raw then Inr (Some h, None, [])
          else (case ytSrc raw options of
                  Inl e \<Rightarrow> Inl e
                | Inr src \<Rightarrow>
                    if src = [] then Inr (Some h, None, [])
                    else (case querySelector h sel_iframe of
                            Inl e \<Rightarrow> Inl e
                          | Inr (Some (p, iframe)) \<Rightarrow>
                              let h' = map_at p (setAttribute ''src'' src) h
                              in Inr (Some h', node_at h' p, [SetSrc p src])
                          | Inr None \<Rightarrow>
                              let p = [length (children h)];
                                  h1 = appendChild h created_iframe;
                                  h2 = map_at p (setAttribute ''src'' src) h1
                              in Inr (Some h2, node_at h2 p,
                                      [AppendChild created_iframe, SetSrc p src]))))"

text \<open>
  \<open>clearIframe\<close> asks for the \<open>querySelector\<close> property before it calls it, so a
  host without one is left alone.
\<close>

definition clearIframe :: "node option \<Rightarrow> error + node option" where
  "clearIframe hostEl =
     (case hostEl of
        None \<Rightarrow> Inr None
      | Some h \<Rightarrow>
          if \<not> is_element h then Inr (Some h)
          else (case querySelector h sel_iframe of
                  Inl e \<Rightarrow> Inl e
                | Inr None \<Rightarrow> Inr (Some h)
                | Inr (Some (p, iframe)) \<Rightarrow> Inr (Some (remove_at p h))))"

text \<open>A sequence of \<open>injectIframe\<close> calls on one host, each with its reference and options.\<close>

fun inject_all :: "node \<Rightarrow> (jsval \<times> jsobj option) list \<Rightarrow> error + node" where
  "inject_all h [] = Inr h"
| "inject_all h ((raw, options) # cs) =
     (case injectIframe (Some h) raw options of
        Inl e \<Rightarrow> Inl e
      | Inr (Some h', r, w) \<Rightarrow> inject_all h' cs
      | Inr (None, r, w) \<Rightarrow> inject_all h cs)"

section \<open>Hover previews\<close>

text \<open>
  The two closures \<open>play\<close> and \<open>stop\<close> of a preview card capture the card, its
  host (here by its path inside the card) and the raw reference. The state of a card
  is its subtree.
\<close>

datatype event = PointerEnter | PointerLeave

datatype handler = Play path string | Stop path

text \<open>Running a change of the element at a path inside a tree, and putting the result back.\<close>

fun update_at :: "path \<Rightarrow> (node \<Rightarrow> error + node) \<Rightarrow> node \<Rightarrow> error + node" where
  "update_at [] f n = f n"
| "update_at (i # p) f (Element t a ks) =
     (if i < length ks
      then (case update_at p f (ks ! i) of
              Inl e \<Rightarrow> Inl e
            | Inr k \<Rightarrow> Inr (Element t a (ks[i := k])))
      else Inr (Element t a ks))"
| "update_at (i # p) f (Text s) = Inr (Text s)"

definition inject_host :: "string \<Rightarrow> node \<Rightarrow> error + node" where
  "inject_host raw host =
     (case injectIframe (Some host) (JStr raw) (Some [''autoplay'' \<mapsto> JNum 1]) of
        Inl e \<Rightarrow> Inl e
      | Inr (Some h', r, w) \<Rightarrow> Inr h'
      | Inr (None, r, w) \<Rightarrow> Inr host)"

definition clear_host :: "node \<Rightarrow> error + node" where
  "clear_host host =
     (case clearIframe (Some host) of
        Inl e \<Rightarrow> Inl e
      | Inr (Some h') \<Rightarrow> Inr h'
      | Inr None \<Rightarrow> Inr host)"

fun run_handler :: "handler \<Rightarrow> node \<Rightarrow> error + node" where
  "run_handler (Play hp raw) preview =
     update_at hp (inject_host raw) (classList_add ''is-playing'' preview)"
| "run_handler (Stop hp) preview =
     update_at hp clear_host (classList_remove ''is-playing'' preview)"

text \<open>
  The callback that \<open>setupHoverPreviews\<close> runs on each preview card; its result is
  the list of listeners it adds to the card, in the order of the \<open>addEventListener\<close>
  calls.
\<close>

definition hoverPreview_callback :: "node \<Rightarrow> error + (event \<times> handler) list" where
  "hoverPreview_callback preview =
     (case querySelector preview sel_ytEmbed_data_yt of
        Inl e \<Rightarrow> Inl e
      | Inr None \<Rightarrow> Inr []
      | Inr (Some (hp, host)) \<Rightarrow>
          if hasAttribute host ''data-autoplay'' then Inr []
          else (case getAttribute host ''data-yt'' of
                  None \<Rightarrow> Inr []
                | Some raw \<Rightarrow>
                    if raw = [] \<or> startsWith raw ''YOUR_'' then Inr []
                    else Inr [(PointerEnter, Play hp raw), (PointerLeave, Stop hp)]))"

fun forEach_previews :: "node list \<Rightarrow> error + (event \<times> handler) list list" where
  "forEach_previews [] = Inr []"
| "forEach_previews (p # ps) =
     (case hoverPreview_callback p of
        Inl e \<Rightarrow> Inl e
      | Inr ls \<Rightarrow> (case forEach_previews ps of
                     Inl e \<Rightarrow> Inl e
                   | Inr r \<Rightarrow> Inr (ls # r)))"

text \<open>
  \<open>setupHoverPreviews\<close> on the document, given by its root node: the listeners of
  each preview card, in the order of \<open>querySelectorAll(".hoverPreview")\<close>.
\<close>

definition setupHoverPreviews :: "node \<Rightarrow> error + (event \<times> handler) list list" where
  "setupHoverPreviews document =
     (case querySelectorAll document sel_hoverPreview of
        Inl e \<Rightarrow> Inl e
      | Inr previews \<Rightarrow> forEach_previews previews)"

text \<open>
  Dispatching an event to a card runs its listeners for that event type in the order
  in which they were added; an error ends the dispatch.
\<close>

fun dispatch :: "(event \<times> handler) list \<Rightarrow> event \<Rightarrow> node \<Rightarrow> error + node" where
  "dispatch [] ev cd = Inr cd"
| "dispatch ((ev', h) # ls) ev cd =
     (if ev' = ev
      then (case run_handler h cd of
              Inl e \<Rightarrow> Inl e
            | Inr cd' \<Rightarrow> dispatch ls ev cd')
      else dispatch ls ev cd)"

fun run_events :: "(event \<times> handler) list \<Rightarrow> event list \<Rightarrow> node \<Rightarrow> error + node" where
  "run_events ls [] cd = Inr cd"
| "run_events ls (ev # evs) cd =
     (case dispatch ls ev cd of
        Inl e \<Rightarrow> Inl e
      | Inr cd' \<Rightarrow> run_events ls evs cd')"

text \<open>An alternating sequence of pointer events that starts with a pointer-enter.\<close>

fun alternating :: "event \<Rightarrow> event list \<Rightarrow> bool" where
  "alternating ev [] = True"
| "alternating ev (e # es) =
     (e = ev \<and> alternating (if ev = PointerEnter then PointerLeave else PointerEnter) es)"

section \<open>Properties of the identifier extractor\<close>

lemma id_char_not_ws: "is_id_char c \<Longrightarrow> \<not> is_ws c"
  by (auto simp: is_id_char_def is_ws_def Let_def)

lemma id_char_unreserved: "is_id_char c \<Longrightarrow> unreserved (of_char c)"
  by (auto simp: is_id_char_def unreserved_def Let_def)

lemma dropWhile_hd_id: "s \<noteq> [] \<Longrightarrow> \<not> P (hd s) \<Longrightarrow> dropWhile P s = s"
  by (cases s) simp_all

lemma trim_bare_id: "bare_id s \<Longrightarrow> trim s = s"
proof -
  assume b: "bare_id s"
  then have ne: "s \<noteq> []" and all: "list_all is_id_char s"
    by (auto simp: bare_id_def)
  from ne all have "is_id_char (hd s)" "is_id_char (last s)"
    by (auto simp: list_all_iff)
  then have h: "\<not> is_ws (hd s)" and l: "\<not> is_ws (hd (rev s))"
    using ne by (auto simp: id_char_not_ws hd_rev)
  from ne h have "dropWhile is_ws s = s" by (rule dropWhile_hd_id)
  moreover from ne l have "dropWhile is_ws (rev s) = rev s"
    by (intro dropWhile_hd_id) simp_all
  ultimately show ?thesis by (simp add: trim_def)
qed

lemma trim_Nil: "trim [] = []" by (simp add: trim_def)

lemma extractYTId_trimmed_bare:
  "bare_id (trim s) \<Longrightarrow> extractYTId (JStr s) = Inr (trim s)"
proof -
  assume b: "bare_id (trim s)"
  then have "trim s \<noteq> []" by (auto simp: bare_id_def)
  then have "s \<noteq> []" using trim_Nil by auto
  with b show ?thesis by (simp add: extractYTId_def)
qed


lemma startsWith_append: "startsWith s m \<longleftrightarrow> (\<exists>r. s = m @ r)"
  by (auto simp: startsWith_def) (metis append_take_drop_id)

lemma match_alts_Some:
  "match_alts ms s = Some g \<Longrightarrow>
     \<exists>m\<in>set ms. startsWith s m \<and> g = take 11 (drop (length m) s) \<and> bare_id g"
  by (induction ms) (auto split: if_splits)

lemma match_alts_None:
  "match_alts ms s = None \<longleftrightarrow>
     (\<forall>m\<in>set ms. \<not> (startsWith s m \<and> bare_id (take 11 (drop (length m) s))))"
  by (induction ms) auto

lemma match_alts_decompose:
  assumes "match_alts ms s = Some g"
  shows "\<exists>m\<in>set ms. \<exists>post. s = m @ g @ post \<and> bare_id g"
proof -
  from match_alts_Some [OF assms] obtain m where m: "m \<in> set ms" "startsWith s m"
    and g: "g = take 11 (drop (length m) s)" and b: "bare_id g" by blast
  from m(2) have "s = m @ drop (length m) s"
    by (metis startsWith_def append_take_drop_id)
  moreover have "drop (length m) s = g @ drop 11 (drop (length m) s)"
    unfolding g by (simp only: append_take_drop_id)
  ultimately have "s = m @ g @ drop 11 (drop (length m) s)" by metis
  with m(1) b show ?thesis by blast
qed

lemma match_alts_hit:
  assumes "m \<in> set ms" and "bare_id g"
  shows "match_alts ms (m @ g @ post) \<noteq> None"
proof -
  from assms(2) have "take 11 (g @ post) = g" by (simp add: bare_id_def)
  with assms(2) have "startsWith (m @ g @ post) m
      \<and> bare_id (take 11 (drop (length m) (m @ g @ post)))"
    by (simp add: startsWith_def)
  with assms(1) show ?thesis
    unfolding match_alts_None by blast
qed

lemma startsWith_Cons:
  "startsWith s (c # m) = (case s of [] \<Rightarrow> False | d # r \<Rightarrow> d = c \<and> startsWith r m)"
  by (cases s) (auto simp: startsWith_def)

lemma markers_unique:
  "m \<in> set markers \<Longrightarrow> m' \<in> set markers \<Longrightarrow> startsWith s m \<Longrightarrow> startsWith s m' \<Longrightarrow> m = m'"
  by (auto simp: markers_def startsWith_Cons split: list.splits)

lemma match_alts_markers_eq:
  assumes "m \<in> set markers" and "bare_id g"
  shows "match_alts markers (m @ g @ post) = Some g"
proof -
  from match_alts_hit [OF assms] obtain g' where g': "match_alts markers (m @ g @ post) = Some g'"
    by blast
  from match_alts_Some [OF g'] obtain m' where m': "m' \<in> set markers" "startsWith (m @ g @ post) m'"
    and e: "g' = take 11 (drop (length m') (m @ g @ post))" by blast
  have "startsWith (m @ g @ post) m" by (simp add: startsWith_def)
  with m' assms(1) have "m' = m" using markers_unique by blast
  with e assms(2) have "g' = g" by (simp add: bare_id_def)
  with g' show ?thesis by simp
qed

lemma regex_search_None:
  "regex_search t = None \<Longrightarrow> t = pre @ suf \<Longrightarrow> match_alts markers suf = None"
proof (induction t arbitrary: pre)
  case Nil
  then show ?case by simp
next
  case (Cons c cs)
  show ?case
  proof (cases pre)
    case Nil
    with Cons.prems show ?thesis by (auto split: option.splits)
  next
    case (Cons p ps)
    with Cons.prems have "regex_search cs = None" "cs = ps @ suf"
      by (auto split: option.splits)
    then show ?thesis by (rule Cons.IH)
  qed
qed

lemma regex_search_Some:
  "regex_search t = Some g \<Longrightarrow>
     \<exists>pre suf. t = pre @ suf \<and> match_alts markers suf = Some g
        \<and> (\<forall>pre' suf'. t = pre' @ suf' \<longrightarrow> length pre' < length pre
              \<longrightarrow> match_alts markers suf' = None)"
proof (induction t)
  case Nil
  then have "[] = [] @ [] \<and> match_alts markers [] = Some g" by simp
  then show ?case by (metis length_0_conv less_nat_zero_code list.size(3) self_append_conv2 append_is_Nil_conv)
next
  case (Cons c cs)
  show ?case
  proof (cases "match_alts markers (c # cs)")
    case (Some g')
    with Cons.prems have "g' = g" by simp
    with Some have "c # cs = [] @ (c # cs) \<and> match_alts markers (c # cs) = Some g
        \<and> (\<forall>pre' suf'. c # cs = pre' @ suf' \<longrightarrow> length pre' < length ([]::string)
              \<longrightarrow> match_alts markers suf' = None)" by simp
    then show ?thesis by blast
  next
    case None
    with Cons.prems have "regex_search cs = Some g" by simp
    from Cons.IH [OF this] obtain pre suf where ps: "cs = pre @ suf"
      "match_alts markers suf = Some g"
      "\<forall>pre' suf'. cs = pre' @ suf' \<longrightarrow> length pre' < length pre \<longrightarrow> match_alts markers suf' = None"
      by blast
    have "\<forall>pre' suf'. c # cs = pre' @ suf' \<longrightarrow> length pre' < length (c # pre)
              \<longrightarrow> match_alts markers suf' = None"
    proof (intro allI impI)
      fix pre' suf' assume e: "c # cs = pre' @ suf'" and l: "length pre' < length (c # pre)"
      show "match_alts markers suf' = None"
      proof (cases pre')
        case Nil
        with e None show ?thesis by simp
      next
        case (Cons p q)
        with e l have "cs = q @ suf'" "length q < length pre" by auto
        with ps(3) show ?thesis by blast
      qed
    qed
    moreover have "c # cs = (c # pre) @ suf" using ps(1) by simp
    ultimately show ?thesis using ps(2) by blast
  qed
qed

lemma extractYTId_first_marker:
  assumes ne: "s \<noteq> []" and nb: "\<not> bare_id (trim s)"
    and dec: "trim s = pre @ m @ g @ post" and m: "m \<in> set markers" and g: "bare_id g"
    and least: "\<forall>pre' m' g' post'. trim s = pre' @ m' @ g' @ post' \<and> m' \<in> set markers \<and> bare_id g'
                  \<longrightarrow> length pre \<le> length pre'"
  shows "extractYTId (JStr s) = Inr g"
proof -
  have hit: "match_alts markers (m @ g @ post) = Some g"
    using m g by (rule match_alts_markers_eq)
  have "regex_search (trim s) \<noteq> None"
    using regex_search_None [OF _ dec] hit by auto
  then obtain g0 where g0: "regex_search (trim s) = Some g0" by blast
  from regex_search_Some [OF g0] obtain pre0 suf0 where p0: "trim s = pre0 @ suf0"
    "match_alts markers suf0 = Some g0"
    "\<forall>pre' suf'. trim s = pre' @ suf' \<longrightarrow> length pre' < length pre0 \<longrightarrow> match_alts markers suf' = None"
    by blast
  from match_alts_decompose [OF p0(2)] obtain m0 post0 where
    d0: "m0 \<in> set markers" "suf0 = m0 @ g0 @ post0" "bare_id g0" by blast
  with p0(1) least have "length pre \<le> length pre0" by blast
  moreover have "\<not> length pre < length pre0"
    using p0(3) dec hit by auto
  ultimately have "length pre = length pre0" by simp
  with dec p0(1) have "suf0 = m @ g @ post" by (metis append_eq_append_conv)
  with p0(2) hit have "g0 = g" by simp
  moreover from g have "g \<noteq> []" by (auto simp: bare_id_def)
  ultimately show ?thesis using ne nb g0 by (simp add: extractYTId_def)
qed

lemma extractYTId_no_marker:
  assumes ne: "s \<noteq> []" and nb: "\<not> bare_id (trim s)"
    and none: "\<forall>pre m g post. trim s = pre @ m @ g @ post \<and> m \<in> set markers \<longrightarrow> \<not> bare_id g"
  shows "extractYTId (JStr s) = Inr (trim s)"
proof (cases "regex_search (trim s)")
  case None
  with ne nb show ?thesis by (simp add: extractYTId_def)
next
  case (Some g0)
  from regex_search_Some [OF Some] obtain pre0 suf0 where p0: "trim s = pre0 @ suf0"
    "match_alts markers suf0 = Some g0" by blast
  from match_alts_decompose [OF p0(2)] obtain m0 post0 where
    "m0 \<in> set markers" "suf0 = m0 @ g0 @ post0" "bare_id g0" by blast
  with p0(1) none show ?thesis by blast
qed

section \<open>Properties of the URL builder\<close>

lemma form_urlencode_Cons:
  "form_urlencode (c # s) = concat (map enc_byte (utf8 c)) @ form_urlencode s"
  by (simp add: form_urlencode_def)

lemma form_urlencode_unreserved:
  "list_all (\<lambda>c. unreserved (of_char c)) s \<Longrightarrow> form_urlencode s = s"
proof (induction s)
  case Nil
  then show ?case by (simp add: form_urlencode_def)
next
  case (Cons c s)
  then have u: "unreserved (of_char c)" and rest: "form_urlencode s = s" by simp_all
  from u have "(of_char c :: nat) < 128" "(of_char c :: nat) \<noteq> 32"
    by (auto simp: unreserved_def)
  with u have "concat (map enc_byte (utf8 c)) = [c]"
    by (simp add: utf8_def enc_byte_def)
  with rest show ?case by (simp add: form_urlencode_Cons)
qed

lemma form_urlencode_bare_id: "bare_id s \<Longrightarrow> form_urlencode s = s"
  by (rule form_urlencode_unreserved)
     (auto simp: bare_id_def list_all_iff id_char_unreserved)

lemma ytSrc_shape:
  assumes "extractYTId raw = Inr ident" and "ident \<noteq> []" and "\<not> startsWith ident ''YOUR_''"
    and "String_of (get_prop (Object_assign [''autoplay'' \<mapsto> JNum 1] options) ''autoplay'') = Inr ap"
  shows "ytSrc raw options =
           Inr (''https://www.youtube-nocookie.com/embed/'' @ ident @ ''?autoplay=''
                @ form_urlencode ap
                @ ''&mute=1&controls=0&rel=0&modestbranding=1&playsinline=1&iv_load_policy=3&loop=1&playlist=''
                @ form_urlencode ident)"
proof -
  have k: "form_urlencode ''autoplay'' = ''autoplay''" "form_urlencode ''mute'' = ''mute''"
    "form_urlencode ''controls'' = ''controls''" "form_urlencode ''rel'' = ''rel''"
    "form_urlencode ''modestbranding'' = ''modestbranding''"
    "form_urlencode ''playsinline'' = ''playsinline''"
    "form_urlencode ''iv_load_policy'' = ''iv_load_policy''"
    "form_urlencode ''loop'' = ''loop''" "form_urlencode ''playlist'' = ''playlist''"
    "form_urlencode ''0'' = ''0''" "form_urlencode ''1'' = ''1''" "form_urlencode ''3'' = ''3''"
    by (simp_all add: form_urlencode_unreserved unreserved_def)
  from assms show ?thesis
    by (simp add: ytSrc_def Let_def URLSearchParams_toString_def embed_base_def k)
qed

lemma ytSrc_conversion_error:
  assumes "extractYTId raw = Inr ident" and "ident \<noteq> []" and "\<not> startsWith ident ''YOUR_''"
    and "String_of (get_prop (Object_assign [''autoplay'' \<mapsto> JNum 1] options) ''autoplay'') = Inl e"
  shows "ytSrc raw options = Inl e"
  using assms by (simp add: ytSrc_def Let_def)

lemma autoplay_default:
  "get_prop (Object_assign [''autoplay'' \<mapsto> JNum 1] None) ''autoplay'' = JNum 1"
  by (simp add: get_prop_def Object_assign_def)

lemma ytSrc_empty_id: "extractYTId raw = Inr [] \<Longrightarrow> ytSrc raw options = Inr []"
  by (simp add: ytSrc_def Let_def)

lemma autoplay_given:
  "cfg ''autoplay'' = Some a \<Longrightarrow>
     get_prop (Object_assign [''autoplay'' \<mapsto> JNum 1] (Some cfg)) ''autoplay'' = a"
  by (simp add: get_prop_def Object_assign_def map_add_def)

lemma String_of_0: "String_of (JNum 0) = Inr ''0''"
  by code_simp

lemma String_of_1: "String_of (JNum 1) = Inr ''1''"
  by code_simp

lemma String_of_2: "String_of (JNum 2) = Inr ''2''"
  by code_simp

lemma form_urlencode_digit:
  "form_urlencode ''0'' = ''0''" "form_urlencode ''1'' = ''1''" "form_urlencode ''2'' = ''2''"
  by (simp_all add: form_urlencode_unreserved unreserved_def)

lemma example_id_bare: "bare_id ''RAbnwLxwPNY''"
  by (simp add: bare_id_def is_id_char_def)

lemma example_id_extract: "extractYTId (JStr ''RAbnwLxwPNY'') = Inr ''RAbnwLxwPNY''"
  using example_id_bare trim_bare_id [OF example_id_bare] by (simp add: extractYTId_def)

lemma example_ytSrc:
  "ytSrc (JStr ''RAbnwLxwPNY'') None =
     Inr ''https://www.youtube-nocookie.com/embed/RAbnwLxwPNY?autoplay=1&mute=1&controls=0&rel=0&modestbranding=1&playsinline=1&iv_load_policy=3&loop=1&playlist=RAbnwLxwPNY''"
proof -
  have n: "''RAbnwLxwPNY'' \<noteq> []" by simp
  have y: "\<not> startsWith ''RAbnwLxwPNY'' ''YOUR_''" by (simp add: startsWith_def)
  have a: "String_of (get_prop (Object_assign [''autoplay'' \<mapsto> JNum 1] None) ''autoplay'') = Inr ''1''"
    by (simp only: autoplay_default String_of_1)
  show ?thesis
    unfolding ytSrc_shape [OF example_id_extract n y a] form_urlencode_digit
      form_urlencode_bare_id [OF example_id_bare]
    by simp
qed

lemma example_ytSrc_autoplay:
  "ytSrc (JStr ''RAbnwLxwPNY'') (Some [''autoplay'' \<mapsto> JNum 1]) =
     Inr ''https://www.youtube-nocookie.com/embed/RAbnwLxwPNY?autoplay=1&mute=1&controls=0&rel=0&modestbranding=1&playsinline=1&iv_load_policy=3&loop=1&playlist=RAbnwLxwPNY''"
proof -
  have n: "''RAbnwLxwPNY'' \<noteq> []" by simp
  have y: "\<not> startsWith ''RAbnwLxwPNY'' ''YOUR_''" by (simp add: startsWith_def)
  have g: "get_prop (Object_assign [''autoplay'' \<mapsto> JNum 1] (Some [''autoplay'' \<mapsto> JNum 1])) ''autoplay'' = JNum 1"
    by (rule autoplay_given) simp
  have a: "String_of (get_prop (Object_assign [''autoplay'' \<mapsto> JNum 1] (Some [''autoplay'' \<mapsto> JNum 1])) ''autoplay'') = Inr ''1''"
    by (simp only: g String_of_1)
  show ?thesis
    unfolding ytSrc_shape [OF example_id_extract n y a] form_urlencode_digit
      form_urlencode_bare_id [OF example_id_bare]
    by simp
qed

lemma ytSrc_string_total:
  "\<exists>u. ytSrc (JStr raw) (Some [''autoplay'' \<mapsto> JNum 1]) = Inr u"
proof -
  have g: "get_prop (Object_assign [''autoplay'' \<mapsto> JNum 1] (Some [''autoplay'' \<mapsto> JNum 1])) ''autoplay'' = JNum 1"
    by (rule autoplay_given) simp
  have "\<exists>ident. extractYTId (JStr raw) = Inr ident"
    by (cases "raw = []") (simp_all add: extractYTId_def Let_def split: option.splits)
  then obtain ident where i: "extractYTId (JStr raw) = Inr ident" by blast
  show ?thesis
    by (simp add: ytSrc_def Let_def i g String_of_1 del: String_of.simps)
qed

section \<open>Properties of the tree operations\<close>

lemma find_all_append: "find_all P (xs @ ys) = find_all P xs @ find_all P ys"
  by (induction P xs rule: find_all.induct) simp_all

lemma find_all_sat: "n \<in> set (find_all P ns) \<Longrightarrow> P n"
  by (induction P ns rule: find_all.induct) (auto split: if_splits)

lemma find_first_None_iff: "find_first P i ns = None \<longleftrightarrow> find_all P ns = []"
  by (induction P i ns rule: find_first.induct) (auto split: option.splits)

lemma find_first_Some:
  "find_first P i ns = Some (p, n) \<Longrightarrow>
     P n \<and> is_element n \<and> (\<exists>j q. p = (i + j) # q \<and> j < length ns \<and> node_at (ns ! j) q = Some n)"
proof (induction P i ns arbitrary: p n rule: find_first.induct)
  case (1 P i)
  then show ?case by simp
next
  case (2 P i s ns)
  then have "find_first P (Suc i) ns = Some (p, n)" by simp
  from "2.IH" [OF this] obtain j q where
    "P n" "is_element n" "p = (Suc i + j) # q" "j < length ns" "node_at (ns ! j) q = Some n"
    by blast
  then have "p = (i + Suc j) # q \<and> Suc j < length (Text s # ns)
      \<and> node_at ((Text s # ns) ! Suc j) q = Some n" by simp
  with \<open>P n\<close> \<open>is_element n\<close> show ?case by blast
next
  case (3 P i t a ks ns)
  show ?case
  proof (cases "P (Element t a ks)")
    case True
    with "3.prems" have "p = [i]" "n = Element t a ks" by simp_all
    with True have "P n \<and> is_element n \<and> p = (i + 0) # [] \<and> 0 < length (Element t a ks # ns)
        \<and> node_at ((Element t a ks # ns) ! 0) [] = Some n" by simp
    then show ?thesis by blast
  next
    case False
    show ?thesis
    proof (cases "find_first P 0 ks")
      case None
      with False "3.prems" have "find_first P (Suc i) ns = Some (p, n)" by simp
      from "3.IH"(2) [OF False None this] obtain j q where
        "P n" "is_element n" "p = (Suc i + j) # q" "j < length ns" "node_at (ns ! j) q = Some n"
        by blast
      then have "p = (i + Suc j) # q \<and> Suc j < length (Element t a ks # ns)
        \<and> node_at ((Element t a ks # ns) ! Suc j) q = Some n" by simp
      with \<open>P n\<close> \<open>is_element n\<close> show ?thesis by blast
    next
      case (Some r)
      obtain p' n' where r: "r = (p', n')" by (cases r)
      with Some False "3.prems" have e: "p = i # p'" "n = n'" by simp_all
      from "3.IH"(1) [OF False] Some r obtain j q where
        "P n'" "is_element n'" "p' = (0 + j) # q" "j < length ks" "node_at (ks ! j) q = Some n'"
        by blast
      then have "node_at (Element t a ks) p' = Some n'" by simp
      with e have "p = (i + 0) # p' \<and> 0 < length (Element t a ks # ns)
        \<and> node_at ((Element t a ks # ns) ! 0) p' = Some n" by simp
      with \<open>P n'\<close> \<open>is_element n'\<close> e show ?thesis by blast
    qed
  qed
qed

lemma querySelector_Some:
  assumes "querySelector h sel = Inr (Some (p, n))"
  shows "sel n \<and> is_element n \<and> is_element h \<and> p \<noteq> [] \<and> node_at h p = Some n"
proof -
  from assms have el: "is_element h" and f: "find_first sel 0 (children h) = Some (p, n)"
    by (auto simp: querySelector_def split: if_splits)
  from find_first_Some [OF f] obtain j q where
    s: "sel n" "is_element n" and p: "p = j # q" "j < length (children h)"
    "node_at (children h ! j) q = Some n" by auto
  from el p have "node_at h p = Some n" by (cases h) simp_all
  with s el p(1) show ?thesis by simp
qed

lemma find_first_snoc:
  "find_first P i ns = None \<Longrightarrow> P (Element t a ks) \<Longrightarrow>
     find_first P i (ns @ [Element t a ks]) = Some ([i + length ns], Element t a ks)"
  by (induction P i ns rule: find_first.induct) (auto split: option.splits if_splits)

lemma node_at_map_at: "node_at h p = Some n \<Longrightarrow> node_at (map_at p f h) p = Some (f n)"
proof (induction p arbitrary: h)
  case Nil
  then show ?case by simp
next
  case (Cons i p)
  then show ?case by (cases h) (auto split: if_splits)
qed

lemma map_of_set_attr: "map_of (set_attr k v a) k = Some v"
  by (induction a) auto

lemma getAttribute_setAttribute:
  "is_element n \<Longrightarrow> getAttribute (setAttribute k v n) k = Some v"
  by (cases n) (simp_all add: map_of_set_attr)

lemma sel_iframe_setAttribute: "sel_iframe (setAttribute k v n) = sel_iframe n"
  by (cases n) (simp_all add: sel_iframe_def)

lemma is_element_setAttribute: "is_element (setAttribute k v n) = is_element n"
  by (cases n) simp_all

lemma sel_iframe_simps:
  "sel_iframe (Element t a ks) = (t = ''iframe'')" "sel_iframe (Text s) = False"
  by (simp_all add: sel_iframe_def)

lemma count_update:
  assumes "j < length ns" and "length (find_all P [k]) = length (find_all P [ns ! j])"
  shows "length (find_all P (ns[j := k])) = length (find_all P ns)"
proof -
  have "ns[j := k] = take j ns @ [k] @ drop (Suc j) ns"
    using assms(1) by (simp add: upd_conv_take_nth_drop)
  then have 1: "length (find_all P (ns[j := k])) =
      length (find_all P (take j ns)) + length (find_all P [k])
      + length (find_all P (drop (Suc j) ns))"
    by (simp only: find_all_append length_append)
  have "ns = take j ns @ [ns ! j] @ drop (Suc j) ns"
    using assms(1) by (simp add: id_take_nth_drop [symmetric])
  then have "find_all P ns = find_all P (take j ns @ [ns ! j] @ drop (Suc j) ns)" by simp
  then have 2: "length (find_all P ns) =
      length (find_all P (take j ns)) + length (find_all P [ns ! j])
      + length (find_all P (drop (Suc j) ns))"
    by (simp only: find_all_append length_append)
  from 1 2 assms(2) show ?thesis by simp
qed

lemma weight_map_at:
  "length (find_all sel_iframe [map_at q (setAttribute k v) n]) = length (find_all sel_iframe [n])"
proof (induction q arbitrary: n)
  case Nil
  then show ?case by (cases n) (simp_all add: sel_iframe_simps)
next
  case (Cons i q)
  show ?case
  proof (cases n)
    case (Text s)
    then show ?thesis by simp
  next
    case (Element t a ks)
    show ?thesis
    proof (cases "i < length ks")
      case True
      have "length (find_all sel_iframe (ks[i := map_at q (setAttribute k v) (ks ! i)])) =
          length (find_all sel_iframe ks)"
        using True Cons.IH by (rule count_update)
      with True Element show ?thesis by (simp add: sel_iframe_simps)
    next
      case False
      with Element show ?thesis by simp
    qed
  qed
qed

lemma sel_iframe_map_at: "sel_iframe (map_at p (setAttribute k v) h) = sel_iframe h"
proof (cases p)
  case Nil
  then show ?thesis by (simp add: sel_iframe_setAttribute)
next
  case (Cons i q)
  then show ?thesis by (cases h) (simp_all add: sel_iframe_simps)
qed

lemma is_element_map_at: "is_element (map_at p (setAttribute k v) h) = is_element h"
proof (cases p)
  case Nil
  then show ?thesis by (simp add: is_element_setAttribute)
next
  case (Cons i q)
  then show ?thesis by (cases h) simp_all
qed

lemma weight_eq:
  "length (find_all sel_iframe [h]) = (if sel_iframe h then 1 else 0) + count_iframes h"
  by (cases h) (simp_all add: count_iframes_def sel_iframe_simps)

lemma count_map_at: "count_iframes (map_at p (setAttribute k v) h) = count_iframes h"
  using weight_map_at [of p k v h] weight_eq [of h] weight_eq [of "map_at p (setAttribute k v) h"]
  by (simp add: sel_iframe_map_at)

lemma find_first_map_at:
  "find_first sel_iframe i ns = Some (p, n) \<Longrightarrow>
     \<exists>j q. p = (i + j) # q \<and> j < length ns
        \<and> find_first sel_iframe i (ns[j := map_at q (setAttribute k v) (ns ! j)])
            = Some (p, setAttribute k v n)"
proof (induction sel_iframe i ns arbitrary: p n rule: find_first.induct)
  case (1 i)
  then show ?case by simp
next
  case (2 i s ns)
  then have "find_first sel_iframe (Suc i) ns = Some (p, n)" by simp
  from "2.hyps" [OF this] obtain j q where
    jq: "p = (Suc i + j) # q" "j < length ns"
    "find_first sel_iframe (Suc i) (ns[j := map_at q (setAttribute k v) (ns ! j)])
       = Some (p, setAttribute k v n)" by blast
  then have "p = (i + Suc j) # q \<and> Suc j < length (Text s # ns)
      \<and> find_first sel_iframe i ((Text s # ns)[Suc j := map_at q (setAttribute k v) ((Text s # ns) ! Suc j)])
          = Some (p, setAttribute k v n)" by simp
  then show ?case by blast
next
  case (3 i t a ks ns)
  show ?case
  proof (cases "sel_iframe (Element t a ks)")
    case True
    with "3.prems" have e: "p = [i]" "n = Element t a ks" by simp_all
    from True have "sel_iframe (Element t (set_attr k v a) ks)" by (simp add: sel_iframe_simps)
    with e have "p = (i + 0) # [] \<and> 0 < length (Element t a ks # ns)
      \<and> find_first sel_iframe i ((Element t a ks # ns)[0 := map_at [] (setAttribute k v) ((Element t a ks # ns) ! 0)])
          = Some (p, setAttribute k v n)" by simp
    then show ?thesis by blast
  next
    case False
    show ?thesis
    proof (cases "find_first sel_iframe 0 ks")
      case None
      with False "3.prems" have "find_first sel_iframe (Suc i) ns = Some (p, n)" by simp
      from "3.hyps"(2) [OF False None this] obtain j q where
        jq: "p = (Suc i + j) # q" "j < length ns"
        "find_first sel_iframe (Suc i) (ns[j := map_at q (setAttribute k v) (ns ! j)])
           = Some (p, setAttribute k v n)" by blast
      with False None have "p = (i + Suc j) # q \<and> Suc j < length (Element t a ks # ns)
        \<and> find_first sel_iframe i ((Element t a ks # ns)[Suc j := map_at q (setAttribute k v) ((Element t a ks # ns) ! Suc j)])
            = Some (p, setAttribute k v n)" by simp
      then show ?thesis by blast
    next
      case (Some r)
      obtain p' n' where r: "r = (p', n')" by (cases r)
      with Some False "3.prems" have e: "p = i # p'" "n = n'" by simp_all
      from "3.hyps"(1) [OF False] Some r obtain j q where
        jq: "p' = (0 + j) # q" "j < length ks"
        "find_first sel_iframe 0 (ks[j := map_at q (setAttribute k v) (ks ! j)])
           = Some (p', setAttribute k v n')" by blast
      from jq(1,2) have m: "map_at p' (setAttribute k v) (Element t a ks)
          = Element t a (ks[j := map_at q (setAttribute k v) (ks ! j)])" by simp
      from False have nf: "\<not> sel_iframe (Element t a (ks[j := map_at q (setAttribute k v) (ks ! j)]))"
        by (simp add: sel_iframe_simps)
      have "find_first sel_iframe i ((Element t a ks # ns)[0 := map_at p' (setAttribute k v) ((Element t a ks # ns) ! 0)])
            = Some (p, setAttribute k v n)"
        using m nf jq(3) e by simp
      with e have "p = (i + 0) # p' \<and> 0 < length (Element t a ks # ns)
        \<and> find_first sel_iframe i ((Element t a ks # ns)[0 := map_at p' (setAttribute k v) ((Element t a ks # ns) ! 0)])
            = Some (p, setAttribute k v n)" by simp
      then show ?thesis by blast
    qed
  qed
qed

lemma querySelector_map_at:
  assumes "querySelector h sel_iframe = Inr (Some (p, n))"
  shows "querySelector (map_at p (setAttribute k v) h) sel_iframe = Inr (Some (p, setAttribute k v n))"
proof -
  from assms have el: "is_element h" and f: "find_first sel_iframe 0 (children h) = Some (p, n)"
    by (auto simp: querySelector_def split: if_splits)
  from el obtain t a ks where h: "h = Element t a ks" by (cases h) simp_all
  from find_first_map_at [OF f, of k v] obtain j q where
    jq: "p = j # q" "j < length (children h)"
    "find_first sel_iframe 0 ((children h)[j := map_at q (setAttribute k v) (children h ! j)])
       = Some (p, setAttribute k v n)" by auto
  with h show ?thesis by (simp add: querySelector_def)
qed

lemma player_Element:
  "setAttribute ''src'' src created_iframe =
     Element ''iframe''
       [(''loading'', ''lazy''),
        (''allow'', ''autoplay; encrypted-media; picture-in-picture''),
        (''title'', ''YouTube video''),
        (''referrerpolicy'', ''strict-origin-when-cross-origin''),
        (''src'', src)] []"
  by (simp add: created_iframe_def)

lemma set_attr_idem: "set_attr k v (set_attr k v a) = set_attr k v a"
  by (induction a) auto

lemma setAttribute_idem: "setAttribute k v (setAttribute k v n) = setAttribute k v n"
  by (cases n) (simp_all add: set_attr_idem)

lemma map_of_set_attr_other: "k' \<noteq> k \<Longrightarrow> map_of (set_attr k v a) k' = map_of a k'"
  by (induction a) auto

lemma setAttribute_keeps:
  "tag (setAttribute k v n) = tag n \<and> children (setAttribute k v n) = children n
   \<and> (\<forall>k'. k' \<noteq> k \<longrightarrow> getAttribute (setAttribute k v n) k' = getAttribute n k')"
  by (cases n) (simp_all add: map_of_set_attr_other)

lemma map_at_fixed: "node_at h p = Some n \<Longrightarrow> f n = n \<Longrightarrow> map_at p f h = h"
proof (induction p arbitrary: h)
  case Nil
  then show ?case by simp
next
  case (Cons i p)
  then show ?case by (cases h) (auto split: if_splits)
qed

lemma injectIframe_noop:
  "\<not> truthy raw \<or> ytSrc raw options = Inr [] \<Longrightarrow>
     injectIframe (Some h) raw options = Inr (Some h, None, [])"
  by (auto simp: injectIframe_def)

lemma injectIframe_error:
  "truthy raw \<Longrightarrow> ytSrc raw options = Inl e \<Longrightarrow> injectIframe (Some h) raw options = Inl e"
  by (simp add: injectIframe_def)

lemma injectIframe_create:
  assumes "truthy raw" and "ytSrc raw options = Inr url" and "url \<noteq> []"
    and "find_all sel_iframe ks = []"
  shows "injectIframe (Some (Element t a ks)) raw options =
           Inr (Some (Element t a (ks @ [setAttribute ''src'' url created_iframe])),
                Some (setAttribute ''src'' url created_iframe),
                [AppendChild created_iframe, SetSrc [length ks] url])"
proof -
  from assms(4) have "find_first sel_iframe 0 ks = None" by (simp add: find_first_None_iff)
  with assms(1-3) show ?thesis
    by (simp add: injectIframe_def Let_def querySelector_def)
qed

lemma injectIframe_reuse:
  assumes "truthy raw" and "ytSrc raw options = Inr url" and "url \<noteq> []"
    and "querySelector h sel_iframe = Inr (Some (p, n))"
  shows "injectIframe (Some h) raw options =
           Inr (Some (map_at p (setAttribute ''src'' url) h),
                Some (setAttribute ''src'' url n),
                [SetSrc p url])"
proof -
  from querySelector_Some [OF assms(4)] have "node_at h p = Some n" by simp
  then have "node_at (map_at p (setAttribute ''src'' url) h) p =
      Some (setAttribute ''src'' url n)" by (rule node_at_map_at)
  with assms show ?thesis by (simp add: injectIframe_def Let_def)
qed

lemma injectIframe_step:
  assumes "is_element h" and "truthy raw" and "ytSrc raw options = Inr url" and "url \<noteq> []"
  shows "\<exists>h' p x w. injectIframe (Some h) raw options
               = Inr (Some h', Some (setAttribute ''src'' url x), w)
           \<and> is_element h'
           \<and> querySelector h' sel_iframe = Inr (Some (p, setAttribute ''src'' url x))
           \<and> is_element x
           \<and> SetSrc p url \<in> set w
           \<and> count_iframes h' = (if count_iframes h = 0 then 1 else count_iframes h)"
proof (cases "find_first sel_iframe 0 (children h)")
  case None
  obtain t a ks where h: "h = Element t a ks" using assms(1) by (cases h) simp_all
  let ?ifr = "setAttribute ''src'' url created_iframe"
  from None h have nf: "find_first sel_iframe 0 ks = None" by simp
  then have z: "find_all sel_iframe ks = []" by (simp add: find_first_None_iff)
  have i: "injectIframe (Some h) raw options =
      Inr (Some (Element t a (ks @ [?ifr])), Some ?ifr,
           [AppendChild created_iframe, SetSrc [length ks] url])"
    unfolding h using assms(2,3,4) z by (rule injectIframe_create)
  have q: "querySelector (Element t a (ks @ [?ifr])) sel_iframe = Inr (Some ([length ks], ?ifr))"
    using nf by (simp add: querySelector_def player_Element find_first_snoc sel_iframe_simps)
  have x: "is_element created_iframe" by (simp add: created_iframe_def)
  have c: "count_iframes (Element t a (ks @ [?ifr])) = 1"
    using z by (simp add: count_iframes_def find_all_append player_Element sel_iframe_simps)
  have c0: "count_iframes h = 0" using z h by (simp add: count_iframes_def)
  have "injectIframe (Some h) raw options =
        Inr (Some (Element t a (ks @ [?ifr])), Some ?ifr,
             [AppendChild created_iframe, SetSrc [length ks] url])
      \<and> is_element (Element t a (ks @ [?ifr]))
      \<and> querySelector (Element t a (ks @ [?ifr])) sel_iframe = Inr (Some ([length ks], ?ifr))
      \<and> is_element created_iframe
      \<and> SetSrc [length ks] url \<in> set [AppendChild created_iframe, SetSrc [length ks] url]
      \<and> count_iframes (Element t a (ks @ [?ifr])) = (if count_iframes h = 0 then 1 else count_iframes h)"
    using i q x c c0 by simp
  then show ?thesis by blast
next
  case (Some r)
  obtain p n where r: "r = (p, n)" by (cases r)
  let ?f = "setAttribute ''src'' url"
  from Some r assms(1) have q0: "querySelector h sel_iframe = Inr (Some (p, n))"
    by (simp add: querySelector_def)
  from querySelector_Some [OF q0] have el: "is_element n" by simp
  have i: "injectIframe (Some h) raw options = Inr (Some (map_at p ?f h), Some (?f n), [SetSrc p url])"
    using assms(2,3,4) q0 by (rule injectIframe_reuse)
  have q: "querySelector (map_at p ?f h) sel_iframe = Inr (Some (p, ?f n))"
    using q0 by (rule querySelector_map_at)
  have c: "count_iframes (map_at p ?f h) = count_iframes h" by (rule count_map_at)
  from Some have "find_all sel_iframe (children h) \<noteq> []"
    using find_first_None_iff [of sel_iframe 0 "children h"] by simp
  then have c0: "count_iframes h \<noteq> 0" by (simp add: count_iframes_def)
  have e: "is_element (map_at p ?f h)" using assms(1) by (simp add: is_element_map_at)
  have "injectIframe (Some h) raw options = Inr (Some (map_at p ?f h), Some (?f n), [SetSrc p url])
      \<and> is_element (map_at p ?f h)
      \<and> querySelector (map_at p ?f h) sel_iframe = Inr (Some (p, ?f n))
      \<and> is_element n
      \<and> SetSrc p url \<in> set [SetSrc p url]
      \<and> count_iframes (map_at p ?f h) = (if count_iframes h = 0 then 1 else count_iframes h)"
    using i q el c c0 e by simp
  then show ?thesis by blast
qed

lemma injectIframe_again:
  assumes "truthy raw" and "ytSrc raw options = Inr url" and "url \<noteq> []"
    and "querySelector h sel_iframe = Inr (Some (p, setAttribute ''src'' url x))"
  shows "injectIframe (Some h) raw options =
           Inr (Some h, Some (setAttribute ''src'' url x), [SetSrc p url])"
proof -
  from querySelector_Some [OF assms(4)]
  have "node_at h p = Some (setAttribute ''src'' url x)" by simp
  then have "map_at p (setAttribute ''src'' url) h = h"
    using setAttribute_idem by (rule map_at_fixed)
  with injectIframe_reuse [OF assms] show ?thesis by (simp add: setAttribute_idem)
qed

lemma inject_all_bound:
  "is_element h \<Longrightarrow> inject_all h cs = Inr h' \<Longrightarrow>
     is_element h' \<and> count_iframes h' \<le> max 1 (count_iframes h)"
proof (induction cs arbitrary: h)
  case Nil
  then show ?case by simp
next
  case (Cons c cs)
  obtain raw options where c: "c = (raw, options)" by (cases c)
  show ?case
  proof (cases "truthy raw")
    case False
    then have "injectIframe (Some h) raw options = Inr (Some h, None, [])"
      using injectIframe_noop by blast
    with Cons.prems(2) have "inject_all h cs = Inr h'" by (simp add: c)
    from Cons.IH [OF Cons.prems(1) this] show ?thesis .
  next
    case True
    show ?thesis
    proof (cases "ytSrc raw options")
      case (Inl e)
      with True have "injectIframe (Some h) raw options = Inl e" by (rule injectIframe_error)
      with Cons.prems(2) show ?thesis by (simp add: c)
    next
      case (Inr url)
      show ?thesis
      proof (cases "url = []")
        case True
        with Inr have "injectIframe (Some h) raw options = Inr (Some h, None, [])"
          using injectIframe_noop by blast
        with Cons.prems(2) have "inject_all h cs = Inr h'" by (simp add: c)
        from Cons.IH [OF Cons.prems(1) this] show ?thesis .
      next
        case False
        from injectIframe_step [OF Cons.prems(1) \<open>truthy raw\<close> Inr False] obtain h1 p x w where
          s: "injectIframe (Some h) raw options = Inr (Some h1, Some (setAttribute ''src'' url x), w)"
          "is_element h1"
          "count_iframes h1 = (if count_iframes h = 0 then 1 else count_iframes h)" by blast
        from s(1) Cons.prems(2) have "inject_all h1 cs = Inr h'" by (simp add: c)
        from Cons.IH [OF s(2) this] have
          h': "is_element h'" "count_iframes h' \<le> max 1 (count_iframes h1)" by simp_all
        from s(3) have "max 1 (count_iframes h1) = max 1 (count_iframes h)"
          by (simp split: if_splits)
        with h' show ?thesis by simp
      qed
    qed
  qed
qed

lemma inject_all_total:
  "is_element h \<Longrightarrow> \<forall>c\<in>set cs. \<exists>u. ytSrc (fst c) (snd c) = Inr u \<Longrightarrow>
     \<exists>h'. inject_all h cs = Inr h'"
proof (induction cs arbitrary: h)
  case Nil
  then show ?case by simp
next
  case (Cons c cs)
  obtain raw options where c: "c = (raw, options)" by (cases c)
  from Cons.prems(2) c obtain url where u: "ytSrc raw options = Inr url" by auto
  from Cons.prems(2) have rest: "\<forall>c\<in>set cs. \<exists>u. ytSrc (fst c) (snd c) = Inr u" by simp
  show ?case
  proof (cases "truthy raw \<and> url \<noteq> []")
    case False
    with u have "injectIframe (Some h) raw options = Inr (Some h, None, [])"
      using injectIframe_noop by blast
    then have "inject_all h (c # cs) = inject_all h cs" by (simp add: c)
    with Cons.IH [OF Cons.prems(1) rest] show ?thesis by simp
  next
    case True
    then have t: "truthy raw" and n: "url \<noteq> []" by simp_all
    from injectIframe_step [OF Cons.prems(1) t u n] obtain h1 p x w where
      s: "injectIframe (Some h) raw options = Inr (Some h1, Some (setAttribute ''src'' url x), w)"
      "is_element h1" by blast
    then have "inject_all h (c # cs) = inject_all h1 cs" by (simp add: c)
    with Cons.IH [OF s(2) rest] show ?thesis by simp
  qed
qed

lemma count_split:
  assumes "i < length ks"
  shows "length (find_all P ks) =
           length (find_all P (take i ks)) + length (find_all P [ks ! i])
           + length (find_all P (drop (Suc i) ks))"
proof -
  have "ks = take i ks @ [ks ! i] @ drop (Suc i) ks"
    using assms by (simp add: id_take_nth_drop [symmetric])
  then have "find_all P ks = find_all P (take i ks @ [ks ! i] @ drop (Suc i) ks)" by simp
  then show ?thesis by (simp only: find_all_append length_append)
qed

lemma count_update_split:
  assumes "i < length ks"
  shows "length (find_all P (ks[i := k])) =
           length (find_all P (take i ks)) + length (find_all P [k])
           + length (find_all P (drop (Suc i) ks))"
proof -
  have "ks[i := k] = take i ks @ [k] @ drop (Suc i) ks"
    using assms by (simp add: upd_conv_take_nth_drop)
  then show ?thesis by (simp only: find_all_append length_append)
qed

lemma insert_remove:
  "node_at h p = Some x \<Longrightarrow> p \<noteq> [] \<Longrightarrow> insert_at p x (remove_at p h) = h"
proof (induction p h rule: remove_at.induct)
  case (1 n)
  then show ?case by simp
next
  case (2 i t a ks)
  then have i: "i < length ks" and x: "ks ! i = x" by (auto split: if_splits)
  from i have A: "take i (take i ks @ drop (Suc i) ks) = take i ks" by simp
  from i have B: "drop i (take i ks @ drop (Suc i) ks) = drop (Suc i) ks" by simp
  have C: "take i ks @ x # drop (Suc i) ks = ks"
    using id_take_nth_drop [OF i] x by simp
  have "insert_at [i] x (remove_at [i] (Element t a ks)) =
      Element t a (take i (take i ks @ drop (Suc i) ks) @ x # drop i (take i ks @ drop (Suc i) ks))"
    by (simp only: remove_at.simps insert_at.simps)
  also have "\<dots> = Element t a (take i ks @ x # drop (Suc i) ks)" by (simp only: A B)
  also have "\<dots> = Element t a ks" by (simp only: C)
  finally show ?case .
next
  case (3 i j p t a ks)
  then have i: "i < length ks" and n: "node_at (ks ! i) (j # p) = Some x"
    by (auto split: if_splits)
  from "3.IH" [OF i n] have "insert_at (j # p) x (remove_at (j # p) (ks ! i)) = ks ! i" by simp
  with i show ?case by simp
next
  case (4 i p s)
  then show ?case by simp
qed

lemma remove_weight:
  "node_at h p = Some x \<Longrightarrow> p \<noteq> [] \<Longrightarrow>
     length (find_all sel_iframe [remove_at p h]) + length (find_all sel_iframe [x])
       = length (find_all sel_iframe [h])"
proof (induction p h rule: remove_at.induct)
  case (1 n)
  then show ?case by simp
next
  case (2 i t a ks)
  then have i: "i < length ks" and x: "ks ! i = x" by (auto split: if_splits)
  from count_split [OF i, of sel_iframe] x show ?case
    by (simp add: find_all_append sel_iframe_simps)
next
  case (3 i j p t a ks)
  then have i: "i < length ks" and n: "node_at (ks ! i) (j # p) = Some x"
    by (auto split: if_splits)
  from "3.IH" [OF i n] have w: "length (find_all sel_iframe [remove_at (j # p) (ks ! i)])
      + length (find_all sel_iframe [x]) = length (find_all sel_iframe [ks ! i])" by simp
  from i w count_split [OF i, of sel_iframe]
    count_update_split [OF i, of sel_iframe "remove_at (j # p) (ks ! i)"]
  show ?case by (simp add: sel_iframe_simps)
next
  case (4 i p s)
  then show ?case by simp
qed

lemma clearIframe_found:
  assumes "querySelector h sel_iframe = Inr (Some (p, n))"
  shows "clearIframe (Some h) = Inr (Some (remove_at p h))"
  using assms querySelector_Some [OF assms] by (simp add: clearIframe_def)

lemma clearIframe_none:
  assumes "count_iframes h = 0"
  shows "clearIframe (Some h) = Inr (Some h)"
proof (cases "is_element h")
  case True
  from assms have "find_first sel_iframe 0 (children h) = None"
    by (simp add: count_iframes_def find_first_None_iff)
  with True show ?thesis by (simp add: clearIframe_def querySelector_def)
next
  case False
  then show ?thesis by (simp add: clearIframe_def)
qed

lemma node_at_setAttribute: "node_at (setAttribute k v n) (i # p) = node_at n (i # p)"
  by (cases n) simp_all

lemma node_at_classList_update: "node_at (classList_update toks n) (i # p) = node_at n (i # p)"
  by (simp add: classList_update_def node_at_setAttribute)

lemma node_at_classList_add: "node_at (classList_add tok n) (i # p) = node_at n (i # p)"
  by (simp add: classList_add_def Let_def node_at_classList_update)

lemma node_at_classList_remove: "node_at (classList_remove tok n) (i # p) = node_at n (i # p)"
  by (simp add: classList_remove_def node_at_classList_update)

lemma update_at_node_at:
  "node_at n hp = Some h \<Longrightarrow> f h = Inr h' \<Longrightarrow>
     \<exists>n'. update_at hp f n = Inr n' \<and> node_at n' hp = Some h'"
proof (induction hp arbitrary: n)
  case Nil
  then show ?case by simp
next
  case (Cons i p)
  then obtain t a ks where n: "n = Element t a ks" "i < length ks" "node_at (ks ! i) p = Some h"
    by (cases n) (auto split: if_splits)
  from Cons.IH [OF n(3) Cons.prems(2)] obtain k where
    "update_at p f (ks ! i) = Inr k" "node_at k p = Some h'" by blast
  with n show ?case by simp
qed

lemma ytSrc_nonempty_truthy:
  "ytSrc (JStr raw) options = Inr url \<Longrightarrow> url \<noteq> [] \<Longrightarrow> raw \<noteq> []"
  by (cases "raw = []") (simp_all add: ytSrc_def extractYTId_def)

lemma inject_host_create:
  assumes "ytSrc (JStr raw) (Some [''autoplay'' \<mapsto> JNum 1]) = Inr url" and "url \<noteq> []"
    and "find_all sel_iframe ks = []"
  shows "inject_host raw (Element t a ks) =
           Inr (Element t a (ks @ [setAttribute ''src'' url created_iframe]))"
proof -
  from assms(1,2) have "truthy (JStr raw)" using ytSrc_nonempty_truthy by simp
  from injectIframe_create [OF this assms(1) assms(2) assms(3), of t a]
  show ?thesis by (simp add: inject_host_def)
qed

lemma clear_host_last:
  assumes "find_all sel_iframe ks = []"
  shows "clear_host (Element t a (ks @ [setAttribute ''src'' src created_iframe])) = Inr (Element t a ks)"
proof -
  from assms have "find_first sel_iframe 0 ks = None" by (simp add: find_first_None_iff)
  then have "find_first sel_iframe 0 (ks @ [setAttribute ''src'' src created_iframe])
      = Some ([length ks], setAttribute ''src'' src created_iframe)"
    by (simp add: player_Element find_first_snoc sel_iframe_simps)
  then show ?thesis
    by (simp add: clear_host_def clearIframe_def querySelector_def)
qed

lemma play_step:
  assumes "node_at cd (i # p) = Some (Element t a ks)"
    and "find_all sel_iframe ks = []"
    and "ytSrc (JStr raw) (Some [''autoplay'' \<mapsto> JNum 1]) = Inr url" and "url \<noteq> []"
  shows "\<exists>cd'. run_handler (Play (i # p) raw) cd = Inr cd'
           \<and> node_at cd' (i # p) =
               Some (Element t a (ks @ [setAttribute ''src'' url created_iframe]))"
proof -
  from assms(1) have "node_at (classList_add ''is-playing'' cd) (i # p) = Some (Element t a ks)"
    by (simp only: node_at_classList_add)
  from update_at_node_at [where f = "inject_host raw", OF this
      inject_host_create [OF assms(3) assms(4) assms(2)]]
  show ?thesis by simp
qed

lemma stop_step:
  assumes "node_at cd (i # p) = Some (Element t a (ks @ [setAttribute ''src'' src created_iframe]))"
    and "find_all sel_iframe ks = []"
  shows "\<exists>cd'. run_handler (Stop (i # p)) cd = Inr cd' \<and> node_at cd' (i # p) = Some (Element t a ks)"
proof -
  from assms(1) have "node_at (classList_remove ''is-playing'' cd) (i # p)
      = Some (Element t a (ks @ [setAttribute ''src'' src created_iframe]))"
    by (simp only: node_at_classList_remove)
  from update_at_node_at [where f = clear_host, OF this clear_host_last [OF assms(2)]]
  show ?thesis by simp
qed

lemma hover_cycle_state:
  assumes z: "find_all sel_iframe ks = []"
    and u: "ytSrc (JStr raw) (Some [''autoplay'' \<mapsto> JNum 1]) = Inr url" and un: "url \<noteq> []"
  shows "alternating ev evs \<Longrightarrow>
         node_at cd (i # p) =
           Some (if ev = PointerEnter then Element t a ks
                 else Element t a (ks @ [setAttribute ''src'' url created_iframe])) \<Longrightarrow>
         \<exists>cd'. run_events [(PointerEnter, Play (i # p) raw), (PointerLeave, Stop (i # p))] evs cd = Inr cd'
           \<and> node_at cd' (i # p) =
               Some (if (ev = PointerEnter) = even (length evs) then Element t a ks
                     else Element t a (ks @ [setAttribute ''src'' url created_iframe]))"
proof (induction evs arbitrary: ev cd)
  case Nil
  then show ?case by simp
next
  case (Cons e es)
  let ?pl = "Element t a (ks @ [setAttribute ''src'' url created_iframe])"
  let ?ls = "[(PointerEnter, Play (i # p) raw), (PointerLeave, Stop (i # p))]"
  from Cons.prems(1) have e: "e = ev" by simp
  show ?case
  proof (cases ev)
    case PointerEnter
    with Cons.prems(2) have "node_at cd (i # p) = Some (Element t a ks)" by simp
    from play_step [OF this z u un] obtain cd1 where
      s: "run_handler (Play (i # p) raw) cd = Inr cd1" "node_at cd1 (i # p) = Some ?pl" by blast
    from Cons.prems(1) PointerEnter have a: "alternating PointerLeave es" by simp
    from s(2) have "node_at cd1 (i # p) = Some (if PointerLeave = PointerEnter then Element t a ks else ?pl)"
      by simp
    from Cons.IH [OF a this] obtain cd' where
      r: "run_events ?ls es cd1 = Inr cd'"
      "node_at cd' (i # p) = Some (if (PointerLeave = PointerEnter) = even (length es) then Element t a ks else ?pl)"
      by blast
    from s(1) r(1) e PointerEnter have "run_events ?ls (e # es) cd = Inr cd'" by simp
    moreover from r(2) PointerEnter have "node_at cd' (i # p) =
        Some (if (ev = PointerEnter) = even (length (e # es)) then Element t a ks else ?pl)"
      by simp
    ultimately show ?thesis by blast
  next
    case PointerLeave
    with Cons.prems(2) have "node_at cd (i # p) = Some ?pl" by simp
    from stop_step [OF this z] obtain cd1 where
      s: "run_handler (Stop (i # p)) cd = Inr cd1" "node_at cd1 (i # p) = Some (Element t a ks)" by blast
    from Cons.prems(1) PointerLeave have a: "alternating PointerEnter es" by simp
    from s(2) have "node_at cd1 (i # p) = Some (if PointerEnter = PointerEnter then Element t a ks else ?pl)"
      by simp
    from Cons.IH [OF a this] obtain cd' where
      r: "run_events ?ls es cd1 = Inr cd'"
      "node_at cd' (i # p) = Some (if (PointerEnter = PointerEnter) = even (length es) then Element t a ks else ?pl)"
      by blast
    from s(1) r(1) e PointerLeave have "run_events ?ls (e # es) cd = Inr cd'" by simp
    moreover from r(2) PointerLeave have "node_at cd' (i # p) =
        Some (if (ev = PointerEnter) = even (length (e # es)) then Element t a ks else ?pl)"
      by simp
    ultimately show ?thesis by blast
  qed
qed

lemma alternating_take: "alternating ev evs \<Longrightarrow> alternating ev (take k evs)"
proof (induction evs arbitrary: ev k)
  case Nil
  then show ?case by simp
next
  case (Cons e es)
  then show ?case by (cases k) simp_all
qed

lemma alternating_nth:
  "alternating ev evs \<Longrightarrow> k < length evs \<Longrightarrow>
     (evs ! k = ev) = even k"
proof (induction evs arbitrary: ev k)
  case Nil
  then show ?case by simp
next
  case (Cons e es)
  show ?case
  proof (cases k)
    case 0
    with Cons.prems show ?thesis by simp
  next
    case (Suc j)
    let ?o = "if ev = PointerEnter then PointerLeave else PointerEnter"
    from Cons.prems Suc have "alternating ?o es" "j < length es" by simp_all
    from Cons.IH [OF this] have "(es ! j = ?o) = even j" .
    moreover have "(es ! j = ev) = (es ! j \<noteq> ?o)"
      by (cases ev; cases "es ! j") simp_all
    ultimately show ?thesis using Suc by simp
  qed
qed

lemma run_events_no_listeners: "run_events [] evs cd = Inr cd"
  by (induction evs) simp_all

lemma hoverPreview_callback_total:
  "is_element p \<Longrightarrow> \<exists>ls. hoverPreview_callback p = Inr ls"
  by (auto simp: hoverPreview_callback_def querySelector_def split: option.splits)

lemma forEach_previews_all:
  "\<forall>p\<in>set ps. is_element p \<Longrightarrow>
     \<exists>lss. forEach_previews ps = Inr lss \<and> length lss = length ps
        \<and> (\<forall>i<length ps. hoverPreview_callback (ps ! i) = Inr (lss ! i))"
proof (induction ps)
  case Nil
  then show ?case by simp
next
  case (Cons p ps)
  from Cons.prems have "is_element p" by simp
  then obtain ls where ls: "hoverPreview_callback p = Inr ls"
    using hoverPreview_callback_total by blast
  from Cons obtain lss where lss: "forEach_previews ps = Inr lss" "length lss = length ps"
    "\<forall>i<length ps. hoverPreview_callback (ps ! i) = Inr (lss ! i)" by auto
  have "\<forall>i<length (p # ps). hoverPreview_callback ((p # ps) ! i) = Inr ((ls # lss) ! i)"
  proof (intro allI impI)
    fix i assume "i < length (p # ps)"
    then show "hoverPreview_callback ((p # ps) ! i) = Inr ((ls # lss) ! i)"
      using ls lss(3) by (cases i) simp_all
  qed
  moreover from ls lss(1) have "forEach_previews (p # ps) = Inr (ls # lss)" by simp
  moreover from lss(2) have "length (ls # lss) = length (p # ps)" by simp
  ultimately show ?case by blast
qed

section \<open>Verified properties\<close>

text \<open>
  C1, as amended: when the extracted identifier is non-empty and does not start with
  \<open>YOUR_\<close>, and the configuration sets autoplay to 0 or 1, the URL is the fixed
  origin and path followed by the identifier as extracted, the nine query parameters
  in their fixed order, and a playlist parameter holding the form-urlencoded
  identifier. The encoding leaves an identifier unchanged when it consists of ASCII
  letters, digits and \<open>* - . _\<close> only, as every canonical eleven-character
  identifier does. For \<open>RAbnwLxwPNY\<close> with autoplay 0 the URL is the one displayed.
\<close>

theorem ytSrc_url_format:
  assumes "extractYTId raw = Inr ident" and "ident \<noteq> []" and "\<not> startsWith ident ''YOUR_''"
    and "cfg ''autoplay'' = Some (JNum a)" and "a = 0 \<or> a = 1"
  shows "ytSrc raw (Some cfg) =
           Inr (''https://www.youtube-nocookie.com/embed/'' @ ident @ ''?autoplay=''
                @ (if a = 0 then ''0'' else ''1'')
                @ ''&mute=1&controls=0&rel=0&modestbranding=1&playsinline=1&iv_load_policy=3&loop=1&playlist=''
                @ form_urlencode ident)
         \<and> (list_all (\<lambda>c. unreserved (of_char c)) ident \<longrightarrow> form_urlencode ident = ident)
         \<and> (bare_id ident \<longrightarrow> form_urlencode ident = ident)
         \<and> ytSrc (JStr ''RAbnwLxwPNY'') (Some [''autoplay'' \<mapsto> JNum 0]) =
             Inr ''https://www.youtube-nocookie.com/embed/RAbnwLxwPNY?autoplay=0&mute=1&controls=0&rel=0&modestbranding=1&playsinline=1&iv_load_policy=3&loop=1&playlist=RAbnwLxwPNY''"
proof -
  have g: "get_prop (Object_assign [''autoplay'' \<mapsto> JNum 1] (Some cfg)) ''autoplay'' = JNum a"
    using assms(4) by (rule autoplay_given)
  have s: "String_of (get_prop (Object_assign [''autoplay'' \<mapsto> JNum 1] (Some cfg)) ''autoplay'')
      = Inr (if a = 0 then ''0'' else ''1'')"
  proof (cases "a = 0")
    case True
    show ?thesis unfolding g True String_of_0 by simp
  next
    case False
    with assms(5) have a1: "a = 1" by simp
    show ?thesis unfolding g a1 String_of_1 by simp
  qed
  have d: "form_urlencode (if a = 0 then ''0'' else ''1'') = (if a = 0 then ''0'' else ''1'')"
    by (simp add: form_urlencode_digit)
  have 1: "ytSrc raw (Some cfg) =
           Inr (''https://www.youtube-nocookie.com/embed/'' @ ident @ ''?autoplay=''
                @ (if a = 0 then ''0'' else ''1'')
                @ ''&mute=1&controls=0&rel=0&modestbranding=1&playsinline=1&iv_load_policy=3&loop=1&playlist=''
                @ form_urlencode ident)"
    unfolding ytSrc_shape [OF assms(1-3) s] d ..
  have g0: "get_prop (Object_assign [''autoplay'' \<mapsto> JNum 1] (Some [''autoplay'' \<mapsto> JNum 0])) ''autoplay'' = JNum 0"
    by (rule autoplay_given) simp
  have s0: "String_of (get_prop (Object_assign [''autoplay'' \<mapsto> JNum 1] (Some [''autoplay'' \<mapsto> JNum 0])) ''autoplay'')
      = Inr ''0''"
    by (simp only: g0 String_of_0)
  have y: "\<not> startsWith ''RAbnwLxwPNY'' ''YOUR_''" by (simp add: startsWith_def)
  have n: "''RAbnwLxwPNY'' \<noteq> []" by simp
  have "ytSrc (JStr ''RAbnwLxwPNY'') (Some [''autoplay'' \<mapsto> JNum 0]) =
      Inr (''https://www.youtube-nocookie.com/embed/'' @ ''RAbnwLxwPNY'' @ ''?autoplay='' @ ''0''
      @ ''&mute=1&controls=0&rel=0&modestbranding=1&playsinline=1&iv_load_policy=3&loop=1&playlist=''
      @ ''RAbnwLxwPNY'')"
    unfolding ytSrc_shape [OF example_id_extract n y s0]
      form_urlencode_digit form_urlencode_bare_id [OF example_id_bare] ..
  then have 2: "ytSrc (JStr ''RAbnwLxwPNY'') (Some [''autoplay'' \<mapsto> JNum 0]) =
             Inr ''https://www.youtube-nocookie.com/embed/RAbnwLxwPNY?autoplay=0&mute=1&controls=0&rel=0&modestbranding=1&playsinline=1&iv_load_policy=3&loop=1&playlist=RAbnwLxwPNY''"
    by simp
  have 3: "list_all (\<lambda>c. unreserved (of_char c)) ident \<longrightarrow> form_urlencode ident = ident"
    using form_urlencode_unreserved by blast
  have 4: "bare_id ident \<longrightarrow> form_urlencode ident = ident"
    using form_urlencode_bare_id by blast
  from 1 2 3 4 show ?thesis by (intro conjI)
qed

text \<open>
  The theorem at the bare identifier \<open>RAbnwLxwPNY\<close> with autoplay 1.
\<close>

theorem ytSrc_url_format_witness:
  "extractYTId (JStr ''RAbnwLxwPNY'') = Inr ''RAbnwLxwPNY''
   \<and> ''RAbnwLxwPNY'' \<noteq> [] \<and> \<not> startsWith ''RAbnwLxwPNY'' ''YOUR_''
   \<and> bare_id ''RAbnwLxwPNY''
   \<and> ytSrc (JStr ''RAbnwLxwPNY'') (Some [''autoplay'' \<mapsto> JNum 1]) =
       Inr ''https://www.youtube-nocookie.com/embed/RAbnwLxwPNY?autoplay=1&mute=1&controls=0&rel=0&modestbranding=1&playsinline=1&iv_load_policy=3&loop=1&playlist=RAbnwLxwPNY''"
proof -
  have n: "''RAbnwLxwPNY'' \<noteq> []" by simp
  have y: "\<not> startsWith ''RAbnwLxwPNY'' ''YOUR_''" by (simp add: startsWith_def)
  have c: "[''autoplay'' \<mapsto> JNum 1] ''autoplay'' = Some (JNum 1)" by simp
  have a: "(1::54 word) = 0 \<or> (1::54 word) = 1" by simp
  note t = ytSrc_url_format [where cfg = "[''autoplay'' \<mapsto> JNum 1]" and a = 1,
      OF example_id_extract n y c a]
  from t have e: "form_urlencode ''RAbnwLxwPNY'' = ''RAbnwLxwPNY''"
    using example_id_bare by blast
  from t have "ytSrc (JStr ''RAbnwLxwPNY'') (Some [''autoplay'' \<mapsto> JNum 1]) =
           Inr (''https://www.youtube-nocookie.com/embed/'' @ ''RAbnwLxwPNY'' @ ''?autoplay=''
                @ (if (1::54 word) = 0 then ''0'' else ''1'')
                @ ''&mute=1&controls=0&rel=0&modestbranding=1&playsinline=1&iv_load_policy=3&loop=1&playlist=''
                @ form_urlencode ''RAbnwLxwPNY'')" by (rule conjunct1)
  then have "ytSrc (JStr ''RAbnwLxwPNY'') (Some [''autoplay'' \<mapsto> JNum 1]) =
       Inr ''https://www.youtube-nocookie.com/embed/RAbnwLxwPNY?autoplay=1&mute=1&controls=0&rel=0&modestbranding=1&playsinline=1&iv_load_policy=3&loop=1&playlist=RAbnwLxwPNY''"
    unfolding e by simp
  with example_id_extract n y example_id_bare show ?thesis by (intro conjI)
qed

text \<open>
  The fallback of the extractor hands any unrecognised text on as the identifier. The
  path takes it verbatim and the playlist parameter takes it form-urlencoded, so the
  two differ as soon as the text holds a character outside the unreserved set: for
  \<open>a b\<close> the path has a space and the playlist parameter a plus sign.
\<close>

theorem ytSrc_url_format_counterexample:
  "extractYTId (JStr ''a b'') = Inr ''a b'' \<and> ''a b'' \<noteq> [] \<and> \<not> startsWith ''a b'' ''YOUR_''
   \<and> ytSrc (JStr ''a b'') (Some [''autoplay'' \<mapsto> JNum 0]) =
       Inr ''https://www.youtube-nocookie.com/embed/a b?autoplay=0&mute=1&controls=0&rel=0&modestbranding=1&playsinline=1&iv_load_policy=3&loop=1&playlist=a+b''
   \<and> ytSrc (JStr ''a b'') (Some [''autoplay'' \<mapsto> JNum 0]) \<noteq>
       Inr ''https://www.youtube-nocookie.com/embed/a b?autoplay=0&mute=1&controls=0&rel=0&modestbranding=1&playsinline=1&iv_load_policy=3&loop=1&playlist=a b''"
proof -
  have e: "extractYTId (JStr ''a b'') = Inr ''a b''" by code_simp
  have u: "ytSrc (JStr ''a b'') (Some [''autoplay'' \<mapsto> JNum 0]) =
       Inr ''https://www.youtube-nocookie.com/embed/a b?autoplay=0&mute=1&controls=0&rel=0&modestbranding=1&playsinline=1&iv_load_policy=3&loop=1&playlist=a+b''"
    by code_simp
  show ?thesis unfolding u e by (simp add: startsWith_def)
qed

text \<open>
  C2: a string of exactly eleven characters of \<open>[A-Za-z0-9_-]\<close> is returned
  unchanged, and an input that trims to such a string yields that string.
\<close>

theorem extractYTId_bare_id:
  assumes "length s = 11" and "list_all is_id_char s"
  shows "extractYTId (JStr s) = Inr s \<and> (\<forall>v. trim v = s \<longrightarrow> extractYTId (JStr v) = Inr s)"
proof -
  from assms have b: "bare_id s" by (simp add: bare_id_def)
  then have "trim s = s" by (rule trim_bare_id)
  with b have "extractYTId (JStr s) = Inr s" using extractYTId_trimmed_bare [of s] by simp
  moreover have "\<forall>v. trim v = s \<longrightarrow> extractYTId (JStr v) = Inr s"
    using b extractYTId_trimmed_bare by auto
  ultimately show ?thesis by simp
qed

theorem extractYTId_bare_id_witness:
  "length ''RAbnwLxwPNY'' = 11 \<and> list_all is_id_char ''RAbnwLxwPNY''
   \<and> trim ''  RAbnwLxwPNY '' = ''RAbnwLxwPNY''
   \<and> extractYTId (JStr ''RAbnwLxwPNY'') = Inr ''RAbnwLxwPNY''
   \<and> extractYTId (JStr ''  RAbnwLxwPNY '') = Inr ''RAbnwLxwPNY''"
proof -
  have l: "length ''RAbnwLxwPNY'' = 11" by simp
  have a: "list_all is_id_char ''RAbnwLxwPNY''" by (simp add: is_id_char_def)
  have t: "trim ''  RAbnwLxwPNY '' = ''RAbnwLxwPNY''" by (simp add: trim_def is_ws_def)
  from extractYTId_bare_id [OF l a] t show ?thesis using l a by blast
qed

text \<open>
  C3, as amended: for a non-empty input whose trimmed value is not a bare identifier,
  the result is the eleven class characters that follow the leftmost occurrence of one
  of the markers \<open>v=\<close>, \<open>/embed/\<close>, \<open>/shorts/\<close>, \<open>youtu.be/\<close> that is
  followed by eleven class characters; when no marker is followed by eleven class
  characters the result is the trimmed input. The four example URLs give
  \<open>RAbnwLxwPNY\<close>.
\<close>

theorem extractYTId_url_markers:
  assumes "s \<noteq> []" and "\<not> bare_id (trim s)"
  shows "(\<forall>pre m g post.
            trim s = pre @ m @ g @ post \<and> m \<in> set [''v='', ''/embed/'', ''/shorts/'', ''youtu.be/'']
            \<and> bare_id g
            \<and> (\<forall>pre' m' g' post'.
                  trim s = pre' @ m' @ g' @ post'
                  \<and> m' \<in> set [''v='', ''/embed/'', ''/shorts/'', ''youtu.be/''] \<and> bare_id g'
                  \<longrightarrow> length pre \<le> length pre')
            \<longrightarrow> extractYTId (JStr s) = Inr g)
       \<and> ((\<forall>pre m g post.
              trim s = pre @ m @ g @ post \<and> m \<in> set [''v='', ''/embed/'', ''/shorts/'', ''youtu.be/'']
              \<longrightarrow> \<not> bare_id g)
            \<longrightarrow> extractYTId (JStr s) = Inr (trim s))
       \<and> extractYTId (JStr ''https://youtu.be/RAbnwLxwPNY'') = Inr ''RAbnwLxwPNY''
       \<and> extractYTId (JStr ''https://x/embed/RAbnwLxwPNY'') = Inr ''RAbnwLxwPNY''
       \<and> extractYTId (JStr ''https://x/watch?v=RAbnwLxwPNY'') = Inr ''RAbnwLxwPNY''
       \<and> extractYTId (JStr ''https://x/shorts/RAbnwLxwPNY'') = Inr ''RAbnwLxwPNY''"
proof -
  have mk: "set [''v='', ''/embed/'', ''/shorts/'', ''youtu.be/''] = set markers"
    by (simp add: markers_def)
  have 1: "\<forall>pre m g post.
            trim s = pre @ m @ g @ post \<and> m \<in> set markers \<and> bare_id g
            \<and> (\<forall>pre' m' g' post'.
                  trim s = pre' @ m' @ g' @ post' \<and> m' \<in> set markers \<and> bare_id g'
                  \<longrightarrow> length pre \<le> length pre')
            \<longrightarrow> extractYTId (JStr s) = Inr g"
    using extractYTId_first_marker [OF assms] by blast
  have 2: "(\<forall>pre m g post. trim s = pre @ m @ g @ post \<and> m \<in> set markers \<longrightarrow> \<not> bare_id g)
            \<longrightarrow> extractYTId (JStr s) = Inr (trim s)"
    using extractYTId_no_marker [OF assms] by blast
  have 3: "extractYTId (JStr ''https://youtu.be/RAbnwLxwPNY'') = Inr ''RAbnwLxwPNY''"
    by code_simp
  have 4: "extractYTId (JStr ''https://x/embed/RAbnwLxwPNY'') = Inr ''RAbnwLxwPNY''"
    by code_simp
  have 5: "extractYTId (JStr ''https://x/watch?v=RAbnwLxwPNY'') = Inr ''RAbnwLxwPNY''"
    by code_simp
  have 6: "extractYTId (JStr ''https://x/shorts/RAbnwLxwPNY'') = Inr ''RAbnwLxwPNY''"
    by code_simp
  from 1 2 3 4 5 6 show ?thesis unfolding mk by (intro conjI)
qed

text \<open>
  The theorem at a short link with a trailing query (the leftmost marker is at the
  start of the input) and at an input without any marker.
\<close>

theorem extractYTId_url_markers_witness:
  "extractYTId (JStr ''youtu.be/RAbnwLxwPNY?t=3'') = Inr ''RAbnwLxwPNY''
   \<and> extractYTId (JStr '' hello '') = Inr ''hello''"
proof -
  have t1: "trim ''youtu.be/RAbnwLxwPNY?t=3'' = ''youtu.be/RAbnwLxwPNY?t=3''"
    by (simp add: trim_def is_ws_def)
  have n1: "''youtu.be/RAbnwLxwPNY?t=3'' \<noteq> []" by simp
  have b1: "\<not> bare_id (trim ''youtu.be/RAbnwLxwPNY?t=3'')"
    unfolding t1 by (simp add: bare_id_def)
  have d1: "trim ''youtu.be/RAbnwLxwPNY?t=3'' = [] @ ''youtu.be/'' @ ''RAbnwLxwPNY'' @ ''?t=3''"
    unfolding t1 by simp
  have m1: "''youtu.be/'' \<in> set [''v='', ''/embed/'', ''/shorts/'', ''youtu.be/'']" by simp
  have l1: "\<forall>pre' m' g' post'.
              trim ''youtu.be/RAbnwLxwPNY?t=3'' = pre' @ m' @ g' @ post'
              \<and> m' \<in> set [''v='', ''/embed/'', ''/shorts/'', ''youtu.be/''] \<and> bare_id g'
              \<longrightarrow> length ([]::string) \<le> length pre'" by simp
  from extractYTId_url_markers [OF n1 b1] d1 m1 example_id_bare l1
  have r1: "extractYTId (JStr ''youtu.be/RAbnwLxwPNY?t=3'') = Inr ''RAbnwLxwPNY''" by blast
  have t2: "trim '' hello '' = ''hello''" by (simp add: trim_def is_ws_def)
  have n2: "'' hello '' \<noteq> []" by simp
  have b2: "\<not> bare_id (trim '' hello '')" unfolding t2 by (simp add: bare_id_def)
  have a2: "\<forall>pre m g post.
              trim '' hello '' = pre @ m @ g @ post
              \<and> m \<in> set [''v='', ''/embed/'', ''/shorts/'', ''youtu.be/'']
              \<longrightarrow> \<not> bare_id g"
  proof (intro allI impI)
    fix pre m g post :: string
    assume "trim '' hello '' = pre @ m @ g @ post
              \<and> m \<in> set [''v='', ''/embed/'', ''/shorts/'', ''youtu.be/'']"
    then have "length ''hello'' = length (pre @ m @ g @ post)" unfolding t2 by simp
    then have "length g \<le> 5" by simp
    then show "\<not> bare_id g" by (simp add: bare_id_def)
  qed
  from extractYTId_url_markers [OF n2 b2] a2
  have "extractYTId (JStr '' hello '') = Inr (trim '' hello '')" by blast
  then have r2: "extractYTId (JStr '' hello '') = Inr ''hello''" unfolding t2 .
  from r1 r2 show ?thesis ..
qed

text \<open>
  The query parameter is recognised under the name \<open>v\<close> only: an identifier that
  follows \<open>video=\<close> is not extracted, the trimmed input comes back whole.
\<close>

theorem extractYTId_url_markers_counterexample:
  "''https://x/watch?video=RAbnwLxwPNY'' \<noteq> []
   \<and> \<not> bare_id (trim ''https://x/watch?video=RAbnwLxwPNY'')
   \<and> trim ''https://x/watch?video=RAbnwLxwPNY'' = ''https://x/watch?'' @ ''video='' @ ''RAbnwLxwPNY''
   \<and> bare_id ''RAbnwLxwPNY''
   \<and> extractYTId (JStr ''https://x/watch?video=RAbnwLxwPNY'') = Inr ''https://x/watch?video=RAbnwLxwPNY''
   \<and> extractYTId (JStr ''https://x/watch?video=RAbnwLxwPNY'') \<noteq> Inr ''RAbnwLxwPNY''"
proof -
  have e: "extractYTId (JStr ''https://x/watch?video=RAbnwLxwPNY'') = Inr ''https://x/watch?video=RAbnwLxwPNY''"
    by code_simp
  have t: "trim ''https://x/watch?video=RAbnwLxwPNY'' = ''https://x/watch?video=RAbnwLxwPNY''"
    by (simp add: trim_def is_ws_def)
  have b: "\<not> bare_id (trim ''https://x/watch?video=RAbnwLxwPNY'')"
    unfolding t by (simp add: bare_id_def)
  show ?thesis unfolding e using b t example_id_bare by simp
qed

text \<open>
  C4: the sentinel test of \<open>ytSrc\<close> looks at the extracted identifier, not at the
  raw input. An input that starts with \<open>YOUR_\<close> and contains a marker followed by
  eleven class characters is reduced to those characters by the extractor, passes the
  test and is embedded.
\<close>

theorem ytSrc_sentinel_prefix_embedded:
  "startsWith ''YOUR_youtu.be/RAbnwLxwPNY'' ''YOUR_''
   \<and> extractYTId (JStr ''YOUR_youtu.be/RAbnwLxwPNY'') = Inr ''RAbnwLxwPNY''
   \<and> ytSrc (JStr ''YOUR_youtu.be/RAbnwLxwPNY'') None =
       Inr ''https://www.youtube-nocookie.com/embed/RAbnwLxwPNY?autoplay=1&mute=1&controls=0&rel=0&modestbranding=1&playsinline=1&iv_load_policy=3&loop=1&playlist=RAbnwLxwPNY''"
  by code_simp

text \<open>
  C5: for an undefined, null or empty input both functions return the empty string and
  raise nothing, whatever the options are: the input is found falsy before anything is
  converted to a string.
\<close>

theorem empty_input_empty_result:
  "extractYTId JUndefined = Inr [] \<and> extractYTId JNull = Inr [] \<and> extractYTId (JStr []) = Inr []
   \<and> ytSrc JUndefined options = Inr [] \<and> ytSrc JNull options = Inr []
   \<and> ytSrc (JStr []) options = Inr []"
  by (simp add: ytSrc_def extractYTId_def)

text \<open>
  C6, as amended: take an element host that holds at most one player. Every sequence
  of \<open>injectIframe\<close> calls that runs through leaves at most one player in it, and it
  runs through whenever the URL builder raises nothing for the references given. A
  call with a usable reference (truthy, with a non-empty built URL) acts as follows.
  If the host holds a player, that element is reused: it stays at its place with its
  name, its children and its other attributes, the only change made is the
  assignment of its \<open>src\<close>, and nothing is appended. If the host holds none, the
  created player is appended as its last child and its \<open>src\<close> is assigned. Either
  way the host then holds exactly one player, the returned element is that player and
  its \<open>src\<close> is the built URL. A second call with the same reference leaves the host
  as it is and still assigns the \<open>src\<close>, to the same URL.
\<close>

theorem injectIframe_single_player:
  assumes "is_element h" and "count_iframes h \<le> 1"
  shows "(\<forall>cs h'. inject_all h cs = Inr h' \<longrightarrow> count_iframes h' \<le> 1)
       \<and> (\<forall>cs. (\<forall>c\<in>set cs. \<exists>u. ytSrc (fst c) (snd c) = Inr u)
              \<longrightarrow> (\<exists>h'. inject_all h cs = Inr h'))
       \<and> (\<forall>url. truthy raw \<and> ytSrc raw options = Inr url \<and> url \<noteq> [] \<longrightarrow>
            (\<forall>p n. querySelector h sel_iframe = Inr (Some (p, n)) \<longrightarrow>
                injectIframe (Some h) raw options =
                  Inr (Some (map_at p (setAttribute ''src'' url) h),
                       Some (setAttribute ''src'' url n), [SetSrc p url])
                \<and> node_at h p = Some n
                \<and> node_at (map_at p (setAttribute ''src'' url) h) p = Some (setAttribute ''src'' url n)
                \<and> tag (setAttribute ''src'' url n) = tag n
                \<and> children (setAttribute ''src'' url n) = children n
                \<and> (\<forall>k. k \<noteq> ''src'' \<longrightarrow>
                      getAttribute (setAttribute ''src'' url n) k = getAttribute n k))
            \<and> (querySelector h sel_iframe = Inr None \<longrightarrow>
                  injectIframe (Some h) raw options =
                    Inr (Some (appendChild h (setAttribute ''src'' url created_iframe)),
                         Some (setAttribute ''src'' url created_iframe),
                         [AppendChild created_iframe, SetSrc [length (children h)] url]))
            \<and> (\<exists>h' p ifr w.
                  injectIframe (Some h) raw options = Inr (Some h', Some ifr, w)
                  \<and> SetSrc p url \<in> set w
                  \<and> querySelector h' sel_iframe = Inr (Some (p, ifr))
                  \<and> getAttribute ifr ''src'' = Some url
                  \<and> count_iframes h' = 1
                  \<and> injectIframe (Some h') raw options = Inr (Some h', Some ifr, [SetSrc p url])))"
proof (intro conjI allI impI)
  fix cs h'
  assume "inject_all h cs = Inr h'"
  from inject_all_bound [OF assms(1) this] assms(2)
  show "count_iframes h' \<le> 1" by simp
next
  fix cs
  assume "\<forall>c\<in>set cs. \<exists>u. ytSrc (fst c) (snd c) = Inr u"
  with assms(1) show "\<exists>h'. inject_all h cs = Inr h'" by (rule inject_all_total)
next
  fix url p n
  assume v: "truthy raw \<and> ytSrc raw options = Inr url \<and> url \<noteq> []"
    and q: "querySelector h sel_iframe = Inr (Some (p, n))"
  from v have t: "truthy raw" and u: "ytSrc raw options = Inr url" and ne: "url \<noteq> []"
    by simp_all
  show "injectIframe (Some h) raw options =
          Inr (Some (map_at p (setAttribute ''src'' url) h),
               Some (setAttribute ''src'' url n), [SetSrc p url])"
    using t u ne q by (rule injectIframe_reuse)
  from querySelector_Some [OF q] show na: "node_at h p = Some n" by simp
  from na show "node_at (map_at p (setAttribute ''src'' url) h) p = Some (setAttribute ''src'' url n)"
    by (rule node_at_map_at)
  show "tag (setAttribute ''src'' url n) = tag n"
    using setAttribute_keeps [of "''src''" url n] by simp
  show "children (setAttribute ''src'' url n) = children n"
    using setAttribute_keeps [of "''src''" url n] by simp
next
  fix url p n k
  assume "k \<noteq> ''src''"
  then show "getAttribute (setAttribute ''src'' url n) k = getAttribute n k"
    using setAttribute_keeps [of "''src''" url n] by simp
next
  fix url
  assume v: "truthy raw \<and> ytSrc raw options = Inr url \<and> url \<noteq> []"
    and q: "querySelector h sel_iframe = Inr None"
  from v have t: "truthy raw" and u: "ytSrc raw options = Inr url" and ne: "url \<noteq> []"
    by simp_all
  obtain tg a ks where h: "h = Element tg a ks" using assms(1) by (cases h) simp_all
  from q h have "find_first sel_iframe 0 ks = None" by (simp add: querySelector_def)
  then have z: "find_all sel_iframe ks = []" by (simp add: find_first_None_iff)
  from injectIframe_create [OF t u ne z, of tg a] h
  show "injectIframe (Some h) raw options =
          Inr (Some (appendChild h (setAttribute ''src'' url created_iframe)),
               Some (setAttribute ''src'' url created_iframe),
               [AppendChild created_iframe, SetSrc [length (children h)] url])"
    by simp
next
  fix url
  assume v: "truthy raw \<and> ytSrc raw options = Inr url \<and> url \<noteq> []"
  then have t: "truthy raw" and u: "ytSrc raw options = Inr url" and ne: "url \<noteq> []"
    by simp_all
  from injectIframe_step [OF assms(1) t u ne] obtain h1 p x w where
    s: "injectIframe (Some h) raw options = Inr (Some h1, Some (setAttribute ''src'' url x), w)"
    "querySelector h1 sel_iframe = Inr (Some (p, setAttribute ''src'' url x))"
    "is_element x" "SetSrc p url \<in> set w"
    "count_iframes h1 = (if count_iframes h = 0 then 1 else count_iframes h)" by blast
  from s(5) assms(2) have c: "count_iframes h1 = 1" by (simp split: if_splits)
  from s(3) have a: "getAttribute (setAttribute ''src'' url x) ''src'' = Some url"
    by (rule getAttribute_setAttribute)
  have again: "injectIframe (Some h1) raw options =
      Inr (Some h1, Some (setAttribute ''src'' url x), [SetSrc p url])"
    using t u ne s(2) by (rule injectIframe_again)
  have "injectIframe (Some h) raw options = Inr (Some h1, Some (setAttribute ''src'' url x), w)
      \<and> SetSrc p url \<in> set w
      \<and> querySelector h1 sel_iframe = Inr (Some (p, setAttribute ''src'' url x))
      \<and> getAttribute (setAttribute ''src'' url x) ''src'' = Some url
      \<and> count_iframes h1 = 1
      \<and> injectIframe (Some h1) raw options =
            Inr (Some h1, Some (setAttribute ''src'' url x), [SetSrc p url])"
    using s(1,4,2) a c again by (intro conjI)
  then show "\<exists>h' p ifr w.
                  injectIframe (Some h) raw options = Inr (Some h', Some ifr, w)
                  \<and> SetSrc p url \<in> set w
                  \<and> querySelector h' sel_iframe = Inr (Some (p, ifr))
                  \<and> getAttribute ifr ''src'' = Some url
                  \<and> count_iframes h' = 1
                  \<and> injectIframe (Some h') raw options = Inr (Some h', Some ifr, [SetSrc p url])"
    by blast
qed

text \<open>
  The theorem at an empty \<open>div\<close> and at a \<open>div\<close> that holds a player with a
  \<open>title\<close>, for the reference \<open>RAbnwLxwPNY\<close>.
\<close>

theorem injectIframe_single_player_witness:
  "is_element (Element ''div'' [] [])
   \<and> count_iframes (Element ''div'' [] []) \<le> 1
   \<and> is_element (Element ''div'' [] [Element ''iframe'' [(''title'', ''t'')] []])
   \<and> count_iframes (Element ''div'' [] [Element ''iframe'' [(''title'', ''t'')] []]) \<le> 1
   \<and> truthy (JStr ''RAbnwLxwPNY'')
   \<and> ytSrc (JStr ''YOUR_ID'') None = Inr []
   \<and> (\<exists>h'. inject_all (Element ''div'' [] [])
               [(JStr ''RAbnwLxwPNY'', None), (JStr ''YOUR_ID'', None), (JStr ''RAbnwLxwPNY'', None)] = Inr h'
          \<and> count_iframes h' \<le> 1)
   \<and> querySelector (Element ''div'' [] []) sel_iframe = Inr None
   \<and> querySelector (Element ''div'' [] [Element ''iframe'' [(''title'', ''t'')] []]) sel_iframe
        = Inr (Some ([0], Element ''iframe'' [(''title'', ''t'')] []))
   \<and> (\<exists>url. ytSrc (JStr ''RAbnwLxwPNY'') None = Inr url \<and> url \<noteq> []
          \<and> injectIframe (Some (Element ''div'' [] [])) (JStr ''RAbnwLxwPNY'') None =
               Inr (Some (appendChild (Element ''div'' [] []) (setAttribute ''src'' url created_iframe)),
                    Some (setAttribute ''src'' url created_iframe),
                    [AppendChild created_iframe, SetSrc [length (children (Element ''div'' [] []))] url])
          \<and> injectIframe (Some (Element ''div'' [] [Element ''iframe'' [(''title'', ''t'')] []]))
                 (JStr ''RAbnwLxwPNY'') None =
               Inr (Some (map_at [0] (setAttribute ''src'' url)
                            (Element ''div'' [] [Element ''iframe'' [(''title'', ''t'')] []])),
                    Some (setAttribute ''src'' url (Element ''iframe'' [(''title'', ''t'')] [])),
                    [SetSrc [0] url])
          \<and> getAttribute (setAttribute ''src'' url (Element ''iframe'' [(''title'', ''t'')] [])) ''title''
               = getAttribute (Element ''iframe'' [(''title'', ''t'')] []) ''title''
          \<and> (\<exists>h' p ifr w.
                 injectIframe (Some (Element ''div'' [] [])) (JStr ''RAbnwLxwPNY'') None
                   = Inr (Some h', Some ifr, w)
                 \<and> count_iframes h' = 1
                 \<and> injectIframe (Some h') (JStr ''RAbnwLxwPNY'') None
                     = Inr (Some h', Some ifr, [SetSrc p url])))"
proof -
  let ?cs = "[(JStr ''RAbnwLxwPNY'', None), (JStr ''YOUR_ID'', None), (JStr ''RAbnwLxwPNY'', None)]"
  let ?h0 = "Element ''div'' [] []"
  let ?n1 = "Element ''iframe'' [(''title'', ''t'')] []"
  let ?h1 = "Element ''div'' [] [?n1]"
  let ?r = "JStr ''RAbnwLxwPNY''"
  have e0: "is_element ?h0" by simp
  have c0: "count_iframes ?h0 \<le> 1" by (simp add: count_iframes_def)
  have e1: "is_element ?h1" by simp
  have c1: "count_iframes ?h1 \<le> 1" by (simp add: count_iframes_def sel_iframe_simps)
  have t: "truthy ?r" by simp
  obtain url where u: "ytSrc ?r None = Inr url" and ne: "url \<noteq> []"
    using example_ytSrc by simp
  have s: "ytSrc (JStr ''YOUR_ID'') None = Inr []" by code_simp
  have all: "\<forall>c\<in>set ?cs. \<exists>u. ytSrc (fst c) (snd c) = Inr u"
    using u s by simp
  have q0: "querySelector ?h0 sel_iframe = Inr None" by (simp add: querySelector_def)
  have q1: "querySelector ?h1 sel_iframe = Inr (Some ([0], ?n1))"
    by (simp add: querySelector_def sel_iframe_simps)
  have k: "''title'' \<noteq> ''src''" by simp
  note th0 = injectIframe_single_player [OF e0 c0, of ?r None]
  note th1 = injectIframe_single_player [OF e1 c1, of ?r None]
  note v = conjI [OF t conjI [OF u ne]]
  note b0 = th0 [THEN conjunct2, THEN conjunct2, THEN spec, THEN mp, OF v]
  note b1 = th1 [THEN conjunct2, THEN conjunct2, THEN spec, THEN mp, OF v]
  from th0 [THEN conjunct2, THEN conjunct1, THEN spec, THEN mp, OF all]
  obtain h' where r: "inject_all ?h0 ?cs = Inr h'" ..
  from th0 [THEN conjunct1, THEN spec, THEN spec, THEN mp, OF r]
  have "count_iframes h' \<le> 1" .
  with r have 1: "\<exists>h'. inject_all ?h0 ?cs = Inr h' \<and> count_iframes h' \<le> 1" by blast
  note 2 = b0 [THEN conjunct2, THEN conjunct1, THEN mp, OF q0]
  note reuse = b1 [THEN conjunct1, THEN spec, THEN spec, THEN mp, OF q1]
  note 3 = reuse [THEN conjunct1]
  note 4 = reuse [THEN conjunct2, THEN conjunct2, THEN conjunct2, THEN conjunct2, THEN conjunct2,
      THEN spec, THEN mp, OF k]
  have 5: "\<exists>h' p ifr w.
          injectIframe (Some ?h0) ?r None = Inr (Some h', Some ifr, w)
          \<and> count_iframes h' = 1
          \<and> injectIframe (Some h') ?r None = Inr (Some h', Some ifr, [SetSrc p url])"
    using b0 [THEN conjunct2, THEN conjunct2]
    by (elim exE conjE) (intro exI conjI, assumption+)
  have 6: "\<exists>x. ytSrc ?r None = Inr x \<and> x \<noteq> []
          \<and> injectIframe (Some ?h0) ?r None =
               Inr (Some (appendChild ?h0 (setAttribute ''src'' x created_iframe)),
                    Some (setAttribute ''src'' x created_iframe),
                    [AppendChild created_iframe, SetSrc [length (children ?h0)] x])
          \<and> injectIframe (Some ?h1) ?r None =
               Inr (Some (map_at [0] (setAttribute ''src'' x) ?h1),
                    Some (setAttribute ''src'' x ?n1), [SetSrc [0] x])
          \<and> getAttribute (setAttribute ''src'' x ?n1) ''title'' = getAttribute ?n1 ''title''
          \<and> (\<exists>h' p ifr w.
                 injectIframe (Some ?h0) ?r None = Inr (Some h', Some ifr, w)
                 \<and> count_iframes h' = 1
                 \<and> injectIframe (Some h') ?r None = Inr (Some h', Some ifr, [SetSrc p x]))"
  proof (rule exI [where x = url])
    show "ytSrc ?r None = Inr url \<and> url \<noteq> []
          \<and> injectIframe (Some ?h0) ?r None =
               Inr (Some (appendChild ?h0 (setAttribute ''src'' url created_iframe)),
                    Some (setAttribute ''src'' url created_iframe),
                    [AppendChild created_iframe, SetSrc [length (children ?h0)] url])
          \<and> injectIframe (Some ?h1) ?r None =
               Inr (Some (map_at [0] (setAttribute ''src'' url) ?h1),
                    Some (setAttribute ''src'' url ?n1), [SetSrc [0] url])
          \<and> getAttribute (setAttribute ''src'' url ?n1) ''title'' = getAttribute ?n1 ''title''
          \<and> (\<exists>h' p ifr w.
                 injectIframe (Some ?h0) ?r None = Inr (Some h', Some ifr, w)
                 \<and> count_iframes h' = 1
                 \<and> injectIframe (Some h') ?r None = Inr (Some h', Some ifr, [SetSrc p url]))"
      using u ne 2 3 4 5 by (intro conjI)
  qed
  from e0 c0 e1 c1 t s 1 q0 q1 6 show ?thesis by (intro conjI)
qed

text \<open>
  Only the first player of the host is looked for, so a host whose markup already
  holds two players keeps both: the first gets the URL, the second stays as it is.
\<close>

theorem injectIframe_single_player_counterexample:
  "is_element (Element ''div'' [] [Element ''iframe'' [] [], Element ''iframe'' [] []])
   \<and> truthy (JStr ''RAbnwLxwPNY'')
   \<and> injectIframe (Some (Element ''div'' [] [Element ''iframe'' [] [], Element ''iframe'' [] []]))
         (JStr ''RAbnwLxwPNY'') None =
       Inr (Some (Element ''div'' []
                    [Element ''iframe''
                       [(''src'', ''https://www.youtube-nocookie.com/embed/RAbnwLxwPNY?autoplay=1&mute=1&controls=0&rel=0&modestbranding=1&playsinline=1&iv_load_policy=3&loop=1&playlist=RAbnwLxwPNY'')] [],
                     Element ''iframe'' [] []]),
            Some (Element ''iframe''
                    [(''src'', ''https://www.youtube-nocookie.com/embed/RAbnwLxwPNY?autoplay=1&mute=1&controls=0&rel=0&modestbranding=1&playsinline=1&iv_load_policy=3&loop=1&playlist=RAbnwLxwPNY'')] []),
            [SetSrc [0] ''https://www.youtube-nocookie.com/embed/RAbnwLxwPNY?autoplay=1&mute=1&controls=0&rel=0&modestbranding=1&playsinline=1&iv_load_policy=3&loop=1&playlist=RAbnwLxwPNY''])
   \<and> count_iframes
         (Element ''div'' []
            [Element ''iframe''
               [(''src'', ''https://www.youtube-nocookie.com/embed/RAbnwLxwPNY?autoplay=1&mute=1&controls=0&rel=0&modestbranding=1&playsinline=1&iv_load_policy=3&loop=1&playlist=RAbnwLxwPNY'')] [],
             Element ''iframe'' [] []]) = 2"
  by code_simp

text \<open>
  C7: \<open>clearIframe\<close> does nothing for an absent host, for a host that is not an
  element and for an element without a player. Otherwise it removes the first player
  element found inside the host, together with what that player contains, and nothing
  else: the host keeps its name and attributes, putting the removed element back at
  its place gives the host as it was, and the player count drops by one plus the
  players nested in the removed one. When the player is a child of the host the other
  children stay as they are, in order; when it lies deeper, the children of the host
  other than the one that contains it are untouched.
\<close>

theorem clearIframe_frame:
  "clearIframe None = Inr None
   \<and> clearIframe (Some (Text s)) = Inr (Some (Text s))
   \<and> (count_iframes (Element t a ks) = 0
        \<longrightarrow> clearIframe (Some (Element t a ks)) = Inr (Some (Element t a ks)))
   \<and> (count_iframes (Element t a ks) \<noteq> 0 \<longrightarrow>
        (\<exists>i q ifr ks'.
           querySelector (Element t a ks) sel_iframe = Inr (Some (i # q, ifr))
           \<and> sel_iframe ifr
           \<and> node_at (Element t a ks) (i # q) = Some ifr
           \<and> clearIframe (Some (Element t a ks)) = Inr (Some (Element t a ks'))
           \<and> insert_at (i # q) ifr (Element t a ks') = Element t a ks
           \<and> count_iframes (Element t a ks') + count_iframes ifr + 1 = count_iframes (Element t a ks)
           \<and> (q = [] \<longrightarrow> ks' = take i ks @ drop (Suc i) ks)
           \<and> (q \<noteq> [] \<longrightarrow> length ks' = length ks
                 \<and> (\<forall>j<length ks. j \<noteq> i \<longrightarrow> ks' ! j = ks ! j))))"
proof (intro conjI impI)
  show "clearIframe None = Inr None" by (simp add: clearIframe_def)
  show "clearIframe (Some (Text s)) = Inr (Some (Text s))" by (simp add: clearIframe_def)
  show "clearIframe (Some (Element t a ks)) = Inr (Some (Element t a ks))"
    if "count_iframes (Element t a ks) = 0" using that by (rule clearIframe_none)
next
  let ?h = "Element t a ks"
  assume nz: "count_iframes ?h \<noteq> 0"
  then have "find_first sel_iframe 0 ks \<noteq> None"
    by (simp add: count_iframes_def find_first_None_iff)
  then obtain p ifr where f: "find_first sel_iframe 0 ks = Some (p, ifr)" by auto
  then have qs: "querySelector ?h sel_iframe = Inr (Some (p, ifr))"
    by (simp add: querySelector_def)
  from querySelector_Some [OF qs] have s: "sel_iframe ifr" and el: "is_element ifr"
    and pne: "p \<noteq> []" and na: "node_at ?h p = Some ifr" by simp_all
  from pne obtain i q where p: "p = i # q" by (cases p) simp_all
  from na p have i: "i < length ks" by (auto split: if_splits)
  define ks' where "ks' = (if q = [] then take i ks @ drop (Suc i) ks
                           else ks[i := remove_at q (ks ! i)])"
  have r: "remove_at p ?h = Element t a ks'"
    using i by (cases q) (simp_all add: p ks'_def)
  have c: "clearIframe (Some ?h) = Inr (Some (Element t a ks'))"
    using clearIframe_found [OF qs] r by simp
  have ins: "insert_at (i # q) ifr (Element t a ks') = ?h"
    using insert_remove [OF na pne] r p by simp
  have w: "length (find_all sel_iframe [remove_at p ?h]) + length (find_all sel_iframe [ifr])
       = length (find_all sel_iframe [?h])"
    using na pne by (rule remove_weight)
  have cnt: "count_iframes (Element t a ks') + count_iframes ifr + 1 = count_iframes ?h"
    using w s unfolding r weight_eq by (simp add: sel_iframe_simps)
  have d: "q = [] \<longrightarrow> ks' = take i ks @ drop (Suc i) ks" by (simp add: ks'_def)
  have n: "q \<noteq> [] \<longrightarrow> length ks' = length ks \<and> (\<forall>j<length ks. j \<noteq> i \<longrightarrow> ks' ! j = ks ! j)"
    by (simp add: ks'_def)
  have "querySelector ?h sel_iframe = Inr (Some (i # q, ifr))
           \<and> sel_iframe ifr
           \<and> node_at ?h (i # q) = Some ifr
           \<and> clearIframe (Some ?h) = Inr (Some (Element t a ks'))
           \<and> insert_at (i # q) ifr (Element t a ks') = ?h
           \<and> count_iframes (Element t a ks') + count_iframes ifr + 1 = count_iframes ?h
           \<and> (q = [] \<longrightarrow> ks' = take i ks @ drop (Suc i) ks)
           \<and> (q \<noteq> [] \<longrightarrow> length ks' = length ks
                 \<and> (\<forall>j<length ks. j \<noteq> i \<longrightarrow> ks' ! j = ks ! j))"
    using qs s na c ins cnt d n unfolding p by (intro conjI)
  then show "\<exists>i q ifr ks'.
           querySelector ?h sel_iframe = Inr (Some (i # q, ifr))
           \<and> sel_iframe ifr
           \<and> node_at ?h (i # q) = Some ifr
           \<and> clearIframe (Some ?h) = Inr (Some (Element t a ks'))
           \<and> insert_at (i # q) ifr (Element t a ks') = ?h
           \<and> count_iframes (Element t a ks') + count_iframes ifr + 1 = count_iframes ?h
           \<and> (q = [] \<longrightarrow> ks' = take i ks @ drop (Suc i) ks)
           \<and> (q \<noteq> [] \<longrightarrow> length ks' = length ks
                 \<and> (\<forall>j<length ks. j \<noteq> i \<longrightarrow> ks' ! j = ks ! j))"
    by blast
qed

text \<open>
  The theorem at a host without a player, at a host whose player is its second child,
  and at a host whose player lies inside its first child.
\<close>

theorem clearIframe_frame_witness:
  "count_iframes (Element ''div'' [] [Text ''a'']) = 0
   \<and> clearIframe (Some (Element ''div'' [] [Text ''a''])) = Inr (Some (Element ''div'' [] [Text ''a'']))
   \<and> count_iframes (Element ''div'' [(''class'', ''ytEmbed'')]
         [Element ''img'' [] [], Element ''iframe'' [] [], Text ''t'']) \<noteq> 0
   \<and> clearIframe (Some (Element ''div'' [(''class'', ''ytEmbed'')]
         [Element ''img'' [] [], Element ''iframe'' [] [], Text ''t'']))
       = Inr (Some (Element ''div'' [(''class'', ''ytEmbed'')] [Element ''img'' [] [], Text ''t'']))
   \<and> (\<exists>ks'. clearIframe (Some (Element ''div'' []
                 [Element ''p'' [] [Element ''iframe'' [] []], Element ''span'' [] []]))
               = Inr (Some (Element ''div'' [] ks'))
            \<and> length ks' = 2 \<and> ks' ! 1 = Element ''span'' [] [])"
proof -
  have c0: "count_iframes (Element ''div'' [] [Text ''a'']) = 0"
    by (simp add: count_iframes_def)
  from clearIframe_frame [of "[]" "''div''" "[]" "[Text ''a'']"] c0
  have r0: "clearIframe (Some (Element ''div'' [] [Text ''a''])) = Inr (Some (Element ''div'' [] [Text ''a'']))"
    by blast
  let ?ks1 = "[Element ''img'' [] [], Element ''iframe'' [] [], Text ''t'']"
  let ?h1 = "Element ''div'' [(''class'', ''ytEmbed'')] ?ks1"
  have c1: "count_iframes ?h1 \<noteq> 0" by (simp add: count_iframes_def sel_iframe_simps)
  have q1: "querySelector ?h1 sel_iframe = Inr (Some ([1], Element ''iframe'' [] []))"
    by (simp add: querySelector_def sel_iframe_simps)
  from clearIframe_frame [of "[]" "''div''" "[(''class'', ''ytEmbed'')]" ?ks1] c1
  obtain i q ifr ks' where
    a: "querySelector ?h1 sel_iframe = Inr (Some (i # q, ifr))"
    "clearIframe (Some ?h1) = Inr (Some (Element ''div'' [(''class'', ''ytEmbed'')] ks'))"
    "q = [] \<longrightarrow> ks' = take i ?ks1 @ drop (Suc i) ?ks1"
    by blast
  from a(1) q1 have "i = 1" "q = []" by simp_all
  with a(3) have "ks' = [Element ''img'' [] [], Text ''t'']" by simp
  with a(2) have r1: "clearIframe (Some ?h1)
      = Inr (Some (Element ''div'' [(''class'', ''ytEmbed'')] [Element ''img'' [] [], Text ''t'']))"
    by simp
  let ?ks2 = "[Element ''p'' [] [Element ''iframe'' [] []], Element ''span'' [] []]"
  let ?h2 = "Element ''div'' [] ?ks2"
  have c2: "count_iframes ?h2 \<noteq> 0" by (simp add: count_iframes_def sel_iframe_simps)
  have q2: "querySelector ?h2 sel_iframe = Inr (Some ([0, 0], Element ''iframe'' [] []))"
    by (simp add: querySelector_def sel_iframe_simps)
  from clearIframe_frame [of "[]" "''div''" "[]" ?ks2] c2
  obtain i2 q2' ifr2 ks2' where
    b: "querySelector ?h2 sel_iframe = Inr (Some (i2 # q2', ifr2))"
    "clearIframe (Some ?h2) = Inr (Some (Element ''div'' [] ks2'))"
    "q2' \<noteq> [] \<longrightarrow> length ks2' = length ?ks2 \<and> (\<forall>j<length ?ks2. j \<noteq> i2 \<longrightarrow> ks2' ! j = ?ks2 ! j)"
    by blast
  from b(1) q2 have "i2 = 0" "q2' = [0]" by simp_all
  with b(3) have "length ks2' = 2" "ks2' ! 1 = Element ''span'' [] []" by simp_all
  with b(2) have r2: "\<exists>ks'. clearIframe (Some ?h2) = Inr (Some (Element ''div'' [] ks'))
            \<and> length ks' = 2 \<and> ks' ! 1 = Element ''span'' [] []" by blast
  from c0 r0 c1 r1 r2 show ?thesis by (intro conjI)
qed

text \<open>
  C8, as amended: take a preview card whose first \<open>.ytEmbed[data-yt]\<close> descendant has
  no \<open>data-autoplay\<close> attribute and a \<open>data-yt\<close> value that is non-empty, does not
  start with \<open>YOUR_\<close> and builds a non-empty embed URL, and whose host holds no
  player. The callback wires the card with \<open>play\<close> on pointer-enter and \<open>stop\<close>
  on pointer-leave, and along every alternating sequence of pointer events that starts
  with a pointer-enter no handler fails, the host holds exactly one player after each
  pointer-enter and none after each pointer-leave (\<open>k\<close> counts the events
  dispatched so far).
\<close>

theorem hover_cycle_one_or_zero:
  assumes "querySelector cd sel_ytEmbed_data_yt = Inr (Some (hp, host))"
    and "\<not> hasAttribute host ''data-autoplay''"
    and "getAttribute host ''data-yt'' = Some raw"
    and "raw \<noteq> []" and "\<not> startsWith raw ''YOUR_''"
    and "ytSrc (JStr raw) (Some [''autoplay'' \<mapsto> JNum 1]) \<noteq> Inr []"
    and "count_iframes host = 0"
    and "alternating PointerEnter evs" and "k \<le> length evs"
  shows "\<exists>ls cd' host'. hoverPreview_callback cd = Inr ls
           \<and> ls = [(PointerEnter, Play hp raw), (PointerLeave, Stop hp)]
           \<and> run_events ls (take k evs) cd = Inr cd'
           \<and> node_at cd' hp = Some host'
           \<and> count_iframes host' = (if 0 < k \<and> evs ! (k - 1) = PointerEnter then 1 else 0)"
proof -
  let ?ls = "[(PointerEnter, Play hp raw), (PointerLeave, Stop hp)]"
  obtain url where u: "ytSrc (JStr raw) (Some [''autoplay'' \<mapsto> JNum 1]) = Inr url"
    using ytSrc_string_total by blast
  with assms(6) have un: "url \<noteq> []" by auto
  have cb: "hoverPreview_callback cd = Inr ?ls"
    using assms(1-5) by (simp add: hoverPreview_callback_def)
  from querySelector_Some [OF assms(1)] have el: "is_element host" and hpne: "hp \<noteq> []"
    and na: "node_at cd hp = Some host" by simp_all
  from el obtain t a ks where host: "host = Element t a ks" by (cases host) simp_all
  from hpne obtain i p where hp: "hp = i # p" by (cases hp) simp_all
  from assms(7) host have z: "find_all sel_iframe ks = []" by (simp add: count_iframes_def)
  let ?pl = "Element t a (ks @ [setAttribute ''src'' url created_iframe])"
  have alt: "alternating PointerEnter (take k evs)" using assms(8) by (rule alternating_take)
  from na host hp have st: "node_at cd (i # p) =
      Some (if PointerEnter = PointerEnter then Element t a ks else ?pl)" by simp
  from hover_cycle_state [OF z u un alt st] assms(9) obtain cd' where
    r: "run_events [(PointerEnter, Play (i # p) raw), (PointerLeave, Stop (i # p))] (take k evs) cd = Inr cd'"
    and n: "node_at cd' (i # p) = Some (if even k then Element t a ks else ?pl)"
    by auto
  have c0: "count_iframes (Element t a ks) = 0" using z by (simp add: count_iframes_def)
  have c1: "count_iframes ?pl = 1"
    using z by (simp add: count_iframes_def find_all_append player_Element sel_iframe_simps)
  have par: "(0 < k \<and> evs ! (k - 1) = PointerEnter) = odd k"
  proof (cases k)
    case 0
    then show ?thesis by simp
  next
    case (Suc j)
    with assms(9) have "j < length evs" by simp
    from alternating_nth [OF assms(8) this] Suc show ?thesis by simp
  qed
  have cnt: "count_iframes (if even k then Element t a ks else ?pl)
      = (if 0 < k \<and> evs ! (k - 1) = PointerEnter then 1 else 0)"
    unfolding par using c0 c1 by simp
  from cb r n cnt have "hoverPreview_callback cd = Inr ?ls \<and> ?ls = ?ls
      \<and> run_events ?ls (take k evs) cd = Inr cd'
      \<and> node_at cd' hp = Some (if even k then Element t a ks else ?pl)
      \<and> count_iframes (if even k then Element t a ks else ?pl)
          = (if 0 < k \<and> evs ! (k - 1) = PointerEnter then 1 else 0)"
    unfolding hp by simp
  then show ?thesis by blast
qed

text \<open>
  The theorem at a card with a poster and a host for \<open>RAbnwLxwPNY\<close>, after the
  events enter, leave, enter and after enter, leave.
\<close>

theorem hover_cycle_one_or_zero_witness:
  "querySelector
     (Element ''div'' [(''class'', ''hoverPreview'')]
        [Element ''img'' [(''class'', ''hoverPreview__poster'')] [],
         Element ''div'' [(''class'', ''hoverPreview__video ytEmbed''), (''data-yt'', ''RAbnwLxwPNY'')] []])
     sel_ytEmbed_data_yt
     = Inr (Some ([1], Element ''div'' [(''class'', ''hoverPreview__video ytEmbed''), (''data-yt'', ''RAbnwLxwPNY'')] []))
   \<and> alternating PointerEnter [PointerEnter, PointerLeave, PointerEnter]
   \<and> (\<exists>cd' host'.
         run_events [(PointerEnter, Play [1] ''RAbnwLxwPNY''), (PointerLeave, Stop [1])]
           [PointerEnter, PointerLeave, PointerEnter]
           (Element ''div'' [(''class'', ''hoverPreview'')]
              [Element ''img'' [(''class'', ''hoverPreview__poster'')] [],
               Element ''div'' [(''class'', ''hoverPreview__video ytEmbed''), (''data-yt'', ''RAbnwLxwPNY'')] []])
           = Inr cd'
         \<and> node_at cd' [1] = Some host' \<and> count_iframes host' = 1)
   \<and> (\<exists>cd' host'.
         run_events [(PointerEnter, Play [1] ''RAbnwLxwPNY''), (PointerLeave, Stop [1])]
           [PointerEnter, PointerLeave]
           (Element ''div'' [(''class'', ''hoverPreview'')]
              [Element ''img'' [(''class'', ''hoverPreview__poster'')] [],
               Element ''div'' [(''class'', ''hoverPreview__video ytEmbed''), (''data-yt'', ''RAbnwLxwPNY'')] []])
           = Inr cd'
         \<and> node_at cd' [1] = Some host' \<and> count_iframes host' = 0)"
proof -
  let ?host = "Element ''div'' [(''class'', ''hoverPreview__video ytEmbed''), (''data-yt'', ''RAbnwLxwPNY'')] []"
  let ?cd = "Element ''div'' [(''class'', ''hoverPreview'')]
        [Element ''img'' [(''class'', ''hoverPreview__poster'')] [], ?host]"
  let ?evs = "[PointerEnter, PointerLeave, PointerEnter]"
  have q: "querySelector ?cd sel_ytEmbed_data_yt = Inr (Some ([1], ?host))" by code_simp
  have na: "\<not> hasAttribute ?host ''data-autoplay''" by (simp add: hasAttribute_def)
  have ga: "getAttribute ?host ''data-yt'' = Some ''RAbnwLxwPNY''" by simp
  have ne: "''RAbnwLxwPNY'' \<noteq> []" by simp
  have ns: "\<not> startsWith ''RAbnwLxwPNY'' ''YOUR_''" by (simp add: startsWith_def)
  have c0: "count_iframes ?host = 0" by (simp add: count_iframes_def)
  have al: "alternating PointerEnter ?evs" by simp
  have yu: "ytSrc (JStr ''RAbnwLxwPNY'') (Some [''autoplay'' \<mapsto> JNum 1]) \<noteq> Inr []"
    unfolding example_ytSrc_autoplay by simp
  have k3: "(3::nat) \<le> length ?evs" by simp
  have k2: "(2::nat) \<le> length ?evs" by simp
  from hover_cycle_one_or_zero [OF q na ga ne ns yu c0 al k3]
  have 3: "\<exists>cd' host'.
         run_events [(PointerEnter, Play [1] ''RAbnwLxwPNY''), (PointerLeave, Stop [1])] ?evs ?cd = Inr cd'
         \<and> node_at cd' [1] = Some host' \<and> count_iframes host' = 1"
    by (simp add: numeral_3_eq_3)
  from hover_cycle_one_or_zero [OF q na ga ne ns yu c0 al k2]
  have 2: "\<exists>cd' host'.
         run_events [(PointerEnter, Play [1] ''RAbnwLxwPNY''), (PointerLeave, Stop [1])]
           [PointerEnter, PointerLeave] ?cd = Inr cd'
         \<and> node_at cd' [1] = Some host' \<and> count_iframes host' = 0"
    by (simp add: numeral_2_eq_2)
  from q al 3 2 show ?thesis by (intro conjI)
qed

text \<open>
  A \<open>data-yt\<close> value made of white space is non-empty and does not start with
  \<open>YOUR_\<close>, so the card is wired; but the value trims to the empty string, no URL
  is built, and the host holds no player after the pointer-enter.
\<close>

theorem hover_cycle_one_or_zero_counterexample:
  "querySelector
     (Element ''div'' [(''class'', ''hoverPreview'')]
        [Element ''div'' [(''class'', ''ytEmbed''), (''data-yt'', '' '')] []])
     sel_ytEmbed_data_yt
     = Inr (Some ([0], Element ''div'' [(''class'', ''ytEmbed''), (''data-yt'', '' '')] []))
   \<and> \<not> hasAttribute (Element ''div'' [(''class'', ''ytEmbed''), (''data-yt'', '' '')] []) ''data-autoplay''
   \<and> getAttribute (Element ''div'' [(''class'', ''ytEmbed''), (''data-yt'', '' '')] []) ''data-yt'' = Some '' ''
   \<and> '' '' \<noteq> [] \<and> \<not> startsWith '' '' ''YOUR_''
   \<and> count_iframes (Element ''div'' [(''class'', ''ytEmbed''), (''data-yt'', '' '')] []) = 0
   \<and> hoverPreview_callback
        (Element ''div'' [(''class'', ''hoverPreview'')]
           [Element ''div'' [(''class'', ''ytEmbed''), (''data-yt'', '' '')] []])
       = Inr [(PointerEnter, Play [0] '' ''), (PointerLeave, Stop [0])]
   \<and> run_events [(PointerEnter, Play [0] '' ''), (PointerLeave, Stop [0])] [PointerEnter]
        (Element ''div'' [(''class'', ''hoverPreview'')]
           [Element ''div'' [(''class'', ''ytEmbed''), (''data-yt'', '' '')] []])
       = Inr (Element ''div'' [(''class'', ''hoverPreview is-playing'')]
                [Element ''div'' [(''class'', ''ytEmbed''), (''data-yt'', '' '')] []])
   \<and> node_at (Element ''div'' [(''class'', ''hoverPreview is-playing'')]
                [Element ''div'' [(''class'', ''ytEmbed''), (''data-yt'', '' '')] []]) [0]
       = Some (Element ''div'' [(''class'', ''ytEmbed''), (''data-yt'', '' '')] [])
   \<and> count_iframes (Element ''div'' [(''class'', ''ytEmbed''), (''data-yt'', '' '')] []) \<noteq> 1"
  by code_simp

text \<open>
  C9: for a preview card whose first \<open>.ytEmbed[data-yt]\<close> descendant carries
  \<open>data-autoplay\<close> the callback adds no listener. In every document in which the card
  is among the preview cards, \<open>setupHoverPreviews\<close> succeeds and the card's listener
  list is empty, so no sequence of pointer events dispatched to the card changes it.
\<close>

theorem autoplay_card_not_wired:
  assumes "querySelector preview sel_ytEmbed_data_yt = Inr (Some (hp, host))"
    and "hasAttribute host ''data-autoplay''"
  shows "hoverPreview_callback preview = Inr []
       \<and> (\<forall>document previews i.
             querySelectorAll document sel_hoverPreview = Inr previews
             \<and> i < length previews \<and> previews ! i = preview
             \<longrightarrow> (\<exists>lss. setupHoverPreviews document = Inr lss
                    \<and> length lss = length previews \<and> lss ! i = []
                    \<and> (\<forall>evs. run_events (lss ! i) evs preview = Inr preview)))"
proof (intro conjI allI impI)
  show cb: "hoverPreview_callback preview = Inr []"
    using assms by (simp add: hoverPreview_callback_def)
  fix document previews i
  assume a: "querySelectorAll document sel_hoverPreview = Inr previews
             \<and> i < length previews \<and> previews ! i = preview"
  then have q: "querySelectorAll document sel_hoverPreview = Inr previews"
    and i: "i < length previews" and p: "previews ! i = preview" by simp_all
  from q have "previews = find_all sel_hoverPreview (children document)"
    by (auto simp: querySelectorAll_def split: if_splits)
  then have "\<forall>p\<in>set previews. is_element p"
    using find_all_sat [of _ sel_hoverPreview "children document"]
    by (auto simp: sel_hoverPreview_def)
  from forEach_previews_all [OF this] obtain lss where
    l: "forEach_previews previews = Inr lss" "length lss = length previews"
    "\<forall>i<length previews. hoverPreview_callback (previews ! i) = Inr (lss ! i)" by blast
  from l(3) i p cb have e: "lss ! i = []" by auto
  from q l(1) have s: "setupHoverPreviews document = Inr lss"
    by (simp add: setupHoverPreviews_def)
  have "\<forall>evs. run_events (lss ! i) evs preview = Inr preview"
    unfolding e by (simp add: run_events_no_listeners)
  with s l(2) e show "\<exists>lss. setupHoverPreviews document = Inr lss
                    \<and> length lss = length previews \<and> lss ! i = []
                    \<and> (\<forall>evs. run_events (lss ! i) evs preview = Inr preview)"
    by blast
qed

text \<open>
  The theorem at a card whose host has \<open>data-autoplay="true"\<close>, alone in a document.
\<close>

theorem autoplay_card_not_wired_witness:
  "querySelector
     (Element ''div'' [(''class'', ''hoverPreview'')]
        [Element ''div'' [(''class'', ''ytEmbed''), (''data-yt'', ''RAbnwLxwPNY''), (''data-autoplay'', ''true'')] []])
     sel_ytEmbed_data_yt
     = Inr (Some ([0], Element ''div'' [(''class'', ''ytEmbed''), (''data-yt'', ''RAbnwLxwPNY''), (''data-autoplay'', ''true'')] []))
   \<and> hasAttribute (Element ''div'' [(''class'', ''ytEmbed''), (''data-yt'', ''RAbnwLxwPNY''), (''data-autoplay'', ''true'')] []) ''data-autoplay''
   \<and> hoverPreview_callback
        (Element ''div'' [(''class'', ''hoverPreview'')]
           [Element ''div'' [(''class'', ''ytEmbed''), (''data-yt'', ''RAbnwLxwPNY''), (''data-autoplay'', ''true'')] []])
       = Inr []
   \<and> (\<exists>lss. setupHoverPreviews
                (Element ''body'' []
                   [Element ''div'' [(''class'', ''hoverPreview'')]
                      [Element ''div'' [(''class'', ''ytEmbed''), (''data-yt'', ''RAbnwLxwPNY''), (''data-autoplay'', ''true'')] []]])
              = Inr lss
            \<and> length lss = 1 \<and> lss ! 0 = [])"
proof -
  let ?host = "Element ''div'' [(''class'', ''ytEmbed''), (''data-yt'', ''RAbnwLxwPNY''), (''data-autoplay'', ''true'')] []"
  let ?cd = "Element ''div'' [(''class'', ''hoverPreview'')] [?host]"
  let ?doc = "Element ''body'' [] [?cd]"
  have q: "querySelector ?cd sel_ytEmbed_data_yt = Inr (Some ([0], ?host))" by code_simp
  have ha: "hasAttribute ?host ''data-autoplay''" by (simp add: hasAttribute_def)
  have qa: "querySelectorAll ?doc sel_hoverPreview = Inr [?cd]" by code_simp
  note th = autoplay_card_not_wired [OF q ha]
  from th have 1: "hoverPreview_callback ?cd = Inr []" by (rule conjunct1)
  from th have "\<forall>document previews i.
             querySelectorAll document sel_hoverPreview = Inr previews
             \<and> i < length previews \<and> previews ! i = ?cd
             \<longrightarrow> (\<exists>lss. setupHoverPreviews document = Inr lss
                    \<and> length lss = length previews \<and> lss ! i = []
                    \<and> (\<forall>evs. run_events (lss ! i) evs ?cd = Inr ?cd))"
    by (rule conjunct2)
  then have "querySelectorAll ?doc sel_hoverPreview = Inr [?cd]
             \<and> 0 < length [?cd] \<and> [?cd] ! 0 = ?cd
             \<longrightarrow> (\<exists>lss. setupHoverPreviews ?doc = Inr lss
                    \<and> length lss = length [?cd] \<and> lss ! 0 = []
                    \<and> (\<forall>evs. run_events (lss ! 0) evs ?cd = Inr ?cd))"
    by blast
  with qa obtain lss where "setupHoverPreviews ?doc = Inr lss"
    "length lss = length [?cd]" "lss ! 0 = []"
    by auto
  then have 2: "\<exists>lss. setupHoverPreviews ?doc = Inr lss \<and> length lss = 1 \<and> lss ! 0 = []"
    by auto
  from q ha 1 2 show ?thesis by (intro conjI)
qed

text \<open>
  C10, as amended: the autoplay option is neither validated nor clamped. Take a
  reference whose extracted identifier is non-empty and does not start with
  \<open>YOUR_\<close>. Whatever value the configuration gives the option, if its string
  conversion succeeds the URL carries, right after the question mark,
  \<open>autoplay=\<close> followed by the form-urlencoded conversion; the encoding is the
  identity on a conversion made of ASCII letters, digits and \<open>* - . _\<close> only, so that
  autoplay 2 gives \<open>autoplay=2\<close>. If the conversion raises an error, \<open>ytSrc\<close>
  raises that error and returns no URL.
\<close>

theorem ytSrc_autoplay_unvalidated:
  assumes "extractYTId raw = Inr ident" and "ident \<noteq> []" and "\<not> startsWith ident ''YOUR_''"
    and "cfg ''autoplay'' = Some a"
  shows "(\<forall>s. String_of a = Inr s \<longrightarrow>
            ytSrc raw (Some cfg) =
              Inr (''https://www.youtube-nocookie.com/embed/'' @ ident @ ''?autoplay=''
                   @ form_urlencode s
                   @ ''&mute=1&controls=0&rel=0&modestbranding=1&playsinline=1&iv_load_policy=3&loop=1&playlist=''
                   @ form_urlencode ident)
            \<and> (list_all (\<lambda>c. unreserved (of_char c)) s \<longrightarrow> form_urlencode s = s))
       \<and> (\<forall>e. String_of a = Inl e \<longrightarrow> ytSrc raw (Some cfg) = Inl e)"
proof (intro conjI allI impI)
  have g: "get_prop (Object_assign [''autoplay'' \<mapsto> JNum 1] (Some cfg)) ''autoplay'' = a"
    using assms(4) by (rule autoplay_given)
  {
    fix s assume "String_of a = Inr s"
    then have c: "String_of (get_prop (Object_assign [''autoplay'' \<mapsto> JNum 1] (Some cfg)) ''autoplay'') = Inr s"
      by (simp only: g)
    show "ytSrc raw (Some cfg) =
              Inr (''https://www.youtube-nocookie.com/embed/'' @ ident @ ''?autoplay=''
                   @ form_urlencode s
                   @ ''&mute=1&controls=0&rel=0&modestbranding=1&playsinline=1&iv_load_policy=3&loop=1&playlist=''
                   @ form_urlencode ident)"
      using assms(1-3) c by (rule ytSrc_shape)
  }
  {
    fix s assume "list_all (\<lambda>c. unreserved (of_char c)) s"
    then show "form_urlencode s = s" by (rule form_urlencode_unreserved)
  }
  {
    fix e assume "String_of a = Inl e"
    then have c: "String_of (get_prop (Object_assign [''autoplay'' \<mapsto> JNum 1] (Some cfg)) ''autoplay'') = Inl e"
      by (simp only: g)
    show "ytSrc raw (Some cfg) = Inl e"
      using assms(1-3) c by (rule ytSrc_conversion_error)
  }
qed

text \<open>
  The theorem at the bare identifier \<open>RAbnwLxwPNY\<close>, with autoplay 2 and with an
  object whose conversion raises a TypeError.
\<close>

theorem ytSrc_autoplay_unvalidated_witness:
  "extractYTId (JStr ''RAbnwLxwPNY'') = Inr ''RAbnwLxwPNY''
   \<and> ''RAbnwLxwPNY'' \<noteq> [] \<and> \<not> startsWith ''RAbnwLxwPNY'' ''YOUR_''
   \<and> String_of (JNum 2) = Inr ''2''
   \<and> list_all (\<lambda>c. unreserved (of_char c)) ''2''
   \<and> form_urlencode ''2'' = ''2''
   \<and> ytSrc (JStr ''RAbnwLxwPNY'') (Some [''autoplay'' \<mapsto> JNum 2]) =
       Inr ''https://www.youtube-nocookie.com/embed/RAbnwLxwPNY?autoplay=2&mute=1&controls=0&rel=0&modestbranding=1&playsinline=1&iv_load_policy=3&loop=1&playlist=RAbnwLxwPNY''
   \<and> String_of (JObject (Inl TypeError)) = Inl TypeError
   \<and> ytSrc (JStr ''RAbnwLxwPNY'') (Some [''autoplay'' \<mapsto> JObject (Inl TypeError)]) = Inl TypeError"
proof -
  have n: "''RAbnwLxwPNY'' \<noteq> []" by simp
  have y: "\<not> startsWith ''RAbnwLxwPNY'' ''YOUR_''" by (simp add: startsWith_def)
  have c: "[''autoplay'' \<mapsto> JNum 2] ''autoplay'' = Some (JNum 2)" by simp
  have u: "list_all (\<lambda>c. unreserved (of_char c)) ''2''" by (simp add: unreserved_def)
  note t = ytSrc_autoplay_unvalidated [where cfg = "[''autoplay'' \<mapsto> JNum 2]" and a = "JNum 2",
      OF example_id_extract n y c]
  from t String_of_2 u have e: "form_urlencode ''2'' = ''2''" by blast
  from t String_of_2 have "ytSrc (JStr ''RAbnwLxwPNY'') (Some [''autoplay'' \<mapsto> JNum 2]) =
           Inr (''https://www.youtube-nocookie.com/embed/'' @ ''RAbnwLxwPNY'' @ ''?autoplay=''
                @ form_urlencode ''2''
                @ ''&mute=1&controls=0&rel=0&modestbranding=1&playsinline=1&iv_load_policy=3&loop=1&playlist=''
                @ form_urlencode ''RAbnwLxwPNY'')" by blast
  then have r: "ytSrc (JStr ''RAbnwLxwPNY'') (Some [''autoplay'' \<mapsto> JNum 2]) =
       Inr ''https://www.youtube-nocookie.com/embed/RAbnwLxwPNY?autoplay=2&mute=1&controls=0&rel=0&modestbranding=1&playsinline=1&iv_load_policy=3&loop=1&playlist=RAbnwLxwPNY''"
    unfolding e form_urlencode_bare_id [OF example_id_bare] by simp
  have o: "String_of (JObject (Inl TypeError)) = Inl TypeError" by simp
  have c': "[''autoplay'' \<mapsto> JObject (Inl TypeError)] ''autoplay'' = Some (JObject (Inl TypeError))"
    by simp
  note t' = ytSrc_autoplay_unvalidated [where cfg = "[''autoplay'' \<mapsto> JObject (Inl TypeError)]"
      and a = "JObject (Inl TypeError)", OF example_id_extract n y c']
  from t' o have r': "ytSrc (JStr ''RAbnwLxwPNY'') (Some [''autoplay'' \<mapsto> JObject (Inl TypeError)]) = Inl TypeError"
    by blast
  from example_id_extract n y String_of_2 u e r o r' show ?thesis by (intro conjI)
qed

text \<open>
  Not every option value leads to a URL: an object that cannot be converted to a string
  (one with neither \<open>toString\<close> nor \<open>valueOf\<close>) makes \<open>ytSrc\<close> raise the
  TypeError of the conversion. Where a URL is returned the conversion appears
  form-urlencoded: the string \<open>a b\<close> gives \<open>autoplay=a+b\<close>, the Number
  \<open>1e21\<close>, which prints as \<open>1e+21\<close>, gives \<open>autoplay=1e%2B21\<close>, and the URL
  holds the text \<open>autoplay=a b\<close> nowhere.
\<close>

theorem ytSrc_autoplay_unvalidated_counterexample:
  "extractYTId (JStr ''RAbnwLxwPNY'') = Inr ''RAbnwLxwPNY''
   \<and> ytSrc (JStr ''RAbnwLxwPNY'') (Some [''autoplay'' \<mapsto> JObject (Inl TypeError)]) = Inl TypeError
   \<and> String_of (JStr ''a b'') = Inr ''a b''
   \<and> ytSrc (JStr ''RAbnwLxwPNY'') (Some [''autoplay'' \<mapsto> JStr ''a b'']) =
       Inr ''https://www.youtube-nocookie.com/embed/RAbnwLxwPNY?autoplay=a+b&mute=1&controls=0&rel=0&modestbranding=1&playsinline=1&iv_load_policy=3&loop=1&playlist=RAbnwLxwPNY''
   \<and> \<not> sublist ''autoplay=a b''
         ''https://www.youtube-nocookie.com/embed/RAbnwLxwPNY?autoplay=a+b&mute=1&controls=0&rel=0&modestbranding=1&playsinline=1&iv_load_policy=3&loop=1&playlist=RAbnwLxwPNY''
   \<and> String_of (JDouble ''1e+21'') = Inr ''1e+21''
   \<and> ytSrc (JStr ''RAbnwLxwPNY'') (Some [''autoplay'' \<mapsto> JDouble ''1e+21'']) =
       Inr ''https://www.youtube-nocookie.com/embed/RAbnwLxwPNY?autoplay=1e%2B21&mute=1&controls=0&rel=0&modestbranding=1&playsinline=1&iv_load_policy=3&loop=1&playlist=RAbnwLxwPNY''"
proof -
  have o: "ytSrc (JStr ''RAbnwLxwPNY'') (Some [''autoplay'' \<mapsto> JObject (Inl TypeError)]) = Inl TypeError"
    by code_simp
  have u: "ytSrc (JStr ''RAbnwLxwPNY'') (Some [''autoplay'' \<mapsto> JStr ''a b'']) =
       Inr ''https://www.youtube-nocookie.com/embed/RAbnwLxwPNY?autoplay=a+b&mute=1&controls=0&rel=0&modestbranding=1&playsinline=1&iv_load_policy=3&loop=1&playlist=RAbnwLxwPNY''"
    by code_simp
  have d: "ytSrc (JStr ''RAbnwLxwPNY'') (Some [''autoplay'' \<mapsto> JDouble ''1e+21'']) =
       Inr ''https://www.youtube-nocookie.com/embed/RAbnwLxwPNY?autoplay=1e%2B21&mute=1&controls=0&rel=0&modestbranding=1&playsinline=1&iv_load_policy=3&loop=1&playlist=RAbnwLxwPNY''"
    by code_simp
  have ns: "\<not> sublist ''autoplay=a b''
     ''https://www.youtube-nocookie.com/embed/RAbnwLxwPNY?autoplay=a+b&mute=1&controls=0&rel=0&modestbranding=1&playsinline=1&iv_load_policy=3&loop=1&playlist=RAbnwLxwPNY''"
  proof
    assume "sublist ''autoplay=a b''
     ''https://www.youtube-nocookie.com/embed/RAbnwLxwPNY?autoplay=a+b&mute=1&controls=0&rel=0&modestbranding=1&playsinline=1&iv_load_policy=3&loop=1&playlist=RAbnwLxwPNY''"
    then have "set ''autoplay=a b'' \<subseteq> set
     ''https://www.youtube-nocookie.com/embed/RAbnwLxwPNY?autoplay=a+b&mute=1&controls=0&rel=0&modestbranding=1&playsinline=1&iv_load_policy=3&loop=1&playlist=RAbnwLxwPNY''"
      by (rule set_mono_sublist)
    then show False by simp
  qed
  have s1: "String_of (JStr ''a b'') = Inr ''a b''" by simp
  have s2: "String_of (JDouble ''1e+21'') = Inr ''1e+21''" by simp
  from example_id_extract o s1 u ns s2 d show ?thesis by (intro conjI)
qed

end
